theory Spec2Isabelle
  imports Main "HOL-Library.Word"
begin

unbundle bit_operations_syntax

section \<open>Go values\<close>

text \<open>
  Go's \<^verbatim>\<open>int\<close> is taken at 64 bits (its width on amd64 and arm64): a
  \<open>64 word\<close> whose \<open>+\<close> and \<open>*\<close> wrap around and whose value is read by
  \<open>sint\<close>. \<^verbatim>\<open>uint32\<close> is a \<open>32 word\<close> read by \<open>unat\<close>, a
  \<^verbatim>\<open>byte\<close> an \<open>8 word\<close>. A slice is a list; \<^verbatim>\<open>len\<close> returns an
  \<^verbatim>\<open>int\<close>.
\<close>

type_synonym go_int = "64 word"
type_synonym uint32 = "32 word"
type_synonym byte = "8 word"

definition len :: "'a list \<Rightarrow> go_int" where
  "len xs = of_nat (length xs)"

text \<open>The conversions \<^verbatim>\<open>uint32(w)\<close> (truncating) and \<^verbatim>\<open>int(n)\<close> (zero-extending).\<close>

definition to_uint32 :: "go_int \<Rightarrow> uint32" where
  "to_uint32 w = ucast w"

definition to_int :: "uint32 \<Rightarrow> go_int" where
  "to_int n = ucast n"

text \<open>
  A run-time panic of Go is a value: indexing a slice outside \<open>0 \<le> i < len\<close> panics,
  as does sending on or closing a closed channel, calling a nil function value, and the
  \<^verbatim>\<open>panic(err)\<close> of the capture loop.
\<close>

datatype error =
    WrongFrameLength go_int go_int
  | UnsupportedFormat string string
  | UnsupportedResolution string go_int go_int
  | NoFrameReceived
  | External string

datatype panic =
    IndexOutOfRange int nat
  | SendOnClosedChannel
  | CloseOfClosedChannel
  | CloseOfNilChannel
  | NilDereference
  | PanicErr error

definition index :: "'a list \<Rightarrow> go_int \<Rightarrow> panic + 'a" where
  "index xs i =
     (if 0 \<le> sint i \<and> nat (sint i) < length xs then Inr (xs ! nat (sint i))
      else Inl (IndexOutOfRange (sint i) (length xs)))"

section \<open>The RGB3 framer (rgb3.go)\<close>

text \<open>
  \<^verbatim>\<open>image.Rect(x0, y0, x1, y1)\<close> of the standard library orders its corners;
  \<^verbatim>\<open>color.RGBA\<close> is four bytes.
\<close>

record Point =
  X :: go_int
  Y :: go_int

record Rectangle =
  Min_pt :: Point
  Max_pt :: Point

definition Rect :: "go_int \<Rightarrow> go_int \<Rightarrow> go_int \<Rightarrow> go_int \<Rightarrow> Rectangle" where
  "Rect x0 y0 x1 y1 =
     (let (x0, x1) = (if sint x0 > sint x1 then (x1, x0) else (x0, x1));
          (y0, y1) = (if sint y0 > sint y1 then (y1, y0) else (y0, y1))
      in \<lparr>Min_pt = \<lparr>X = x0, Y = y0\<rparr>, Max_pt = \<lparr>X = x1, Y = y1\<rparr>\<rparr>)"

datatype color_Model = RGBAModel

record RGBA =
  R :: byte
  G :: byte
  B :: byte
  A :: byte

text \<open>
  The struct \<^verbatim>\<open>fRGB3\<close>. A \<^verbatim>\<open>func()\<close> value is a transformer of the state \<open>'s\<close>
  it acts on, and \<open>None\<close> when nil. The field \<^verbatim>\<open>b\<close> is named \<open>bnd\<close>.
\<close>

record 's fRGB3 =
  model :: color_Model
  bnd :: Rectangle
  width :: go_int
  frame :: "byte list"
  release :: "('s \<Rightarrow> 's) option"

text \<open>
  \<^verbatim>\<open>frameRGB3\<close>: on a length mismatch the deferred \<^verbatim>\<open>rel()\<close> runs as the function
  returns, when \<^verbatim>\<open>rel\<close> is not nil. The result is the pair of Go, (nil, err) or
  (frame, nil), as a sum, with the state the call leaves.
\<close>

definition frameRGB3 ::
  "go_int \<Rightarrow> go_int \<Rightarrow> go_int \<Rightarrow> go_int \<Rightarrow> byte list \<Rightarrow> ('s \<Rightarrow> 's) option \<Rightarrow> 's
     \<Rightarrow> (error + 's fRGB3) \<times> 's" where
  "frameRGB3 size' bw w h b rel s =
     (if len b \<noteq> size' then
        (Inl (WrongFrameLength size' (len b)), (case rel of None \<Rightarrow> s | Some r \<Rightarrow> r s))
      else
        (Inr \<lparr>model = RGBAModel, bnd = Rect 0 0 w h, width = bw, frame = b, release = rel\<rparr>, s))"

text \<open>
  \<^verbatim>\<open>newFramerRGB3\<close>. The flag \<^verbatim>\<open>*padded\<close> is declared elsewhere in the package
  and is a parameter here. \<open>newFramerRGB3_vars\<close> is the pair \<^verbatim>\<open>(size, bw)\<close> (\<open>size\<close> is written \<open>size'\<close>) as the
  \<^verbatim>\<open>if\<close> statement leaves it: \<^verbatim>\<open>var size, bw int\<close> starts both at zero, and the
  \<^verbatim>\<open>else\<close> branch assigns \<^verbatim>\<open>size\<close> only.
\<close>

definition newFramerRGB3_vars :: "bool \<Rightarrow> go_int \<Rightarrow> go_int \<Rightarrow> go_int \<times> go_int" where
  "newFramerRGB3_vars padded w h =
     (if padded then
        (let bw = (w + 31) AND NOT 31;
             size' = 3 * bw * ((h + 15) AND NOT 15)
         in (size', bw))
      else
        (let size' = 3 * h * w in (size', 0)))"

definition newFramerRGB3 ::
  "bool \<Rightarrow> go_int \<Rightarrow> go_int \<Rightarrow> byte list \<Rightarrow> ('s \<Rightarrow> 's) option \<Rightarrow> 's \<Rightarrow> (error + 's fRGB3) \<times> 's" where
  "newFramerRGB3 padded w h =
     (let (size', bw) = newFramerRGB3_vars padded w h
      in (\<lambda>b rel. frameRGB3 size' bw w h b rel))"

definition ColorModel :: "'s fRGB3 \<Rightarrow> color_Model" where
  "ColorModel f = model f"

definition Bounds :: "'s fRGB3 \<Rightarrow> Rectangle" where
  "Bounds f = bnd f"

definition At :: "'s fRGB3 \<Rightarrow> go_int \<Rightarrow> go_int \<Rightarrow> panic + RGBA" where
  "At f x y =
     (let i = width f * y * 3 + x * 3 in
      case index (frame f) i of Inl p \<Rightarrow> Inl p | Inr r \<Rightarrow>
      (case index (frame f) (i + 1) of Inl p \<Rightarrow> Inl p | Inr g \<Rightarrow>
      (case index (frame f) (i + 2) of Inl p \<Rightarrow> Inl p | Inr b \<Rightarrow>
         Inr \<lparr>R = r, G = g, B = b, A = 0xFF\<rparr>)))"

definition Release :: "'s fRGB3 \<Rightarrow> 's \<Rightarrow> 's" where
  "Release f s = (case release f of None \<Rightarrow> s | Some r \<Rightarrow> r s)"

section \<open>Frame-size matching (snapshot.go)\<close>

text \<open>\<^verbatim>\<open>webcam.FrameSize\<close>, the driver's report of one supported range of sizes.\<close>

record FrameSize =
  MinWidth :: uint32
  MaxWidth :: uint32
  StepWidth :: uint32
  MinHeight :: uint32
  MaxHeight :: uint32
  StepHeight :: uint32

definition canFit :: "uint32 \<Rightarrow> uint32 \<Rightarrow> uint32 \<Rightarrow> uint32 \<Rightarrow> bool" where
  "canFit mn mx step val =
     (if mn = mx \<and> step = 0 \<and> val = mn then True
      else step \<noteq> 0 \<and> val \<ge> mn \<and> val \<le> mx \<and> (val - mn) mod step = 0)"

definition Match :: "FrameSize \<Rightarrow> go_int \<Rightarrow> go_int \<Rightarrow> bool" where
  "Match fs w h =
     (canFit (MinWidth fs) (MaxWidth fs) (StepWidth fs) (to_uint32 w) \<and>
      canFit (MinHeight fs) (MaxHeight fs) (StepHeight fs) (to_uint32 h))"

section \<open>The capture pipeline (snapshot.go)\<close>

subsection \<open>The driver and the registry\<close>

text \<open>
  The package \<^verbatim>\<open>webcam\<close> is the device driver. Every call the pipeline makes on
  it is appended to a log, and what the driver answers is a parameter of the function
  that makes the call. \<^verbatim>\<open>FourCCToPixelFormat\<close> and \<^verbatim>\<open>GetFramer\<close> are functions
  of the package \<^verbatim>\<open>frame\<close> declared in another file: they are parameters as well,
  returning an error or a value as Go's pair does.
\<close>

type_synonym PixelFormat = uint32
type_synonym FourCC = string

datatype call =
    webcam_Open string
  | cam_GetSupportedFormats
  | cam_GetSupportedFrameSizes PixelFormat
  | cam_SetImageFormat PixelFormat uint32 uint32
  | cam_SetBufferCount uint32
  | cam_SetAutoWhiteBalance bool
  | cam_StartStreaming
  | cam_StopStreaming
  | cam_Close
  | cam_WaitForFrame uint32
  | cam_GetFrame
  | cam_ReleaseFrame uint32

text \<open>The line that \<^verbatim>\<open>fmt.Printf("Asked for ..., got ...")\<close> writes.\<close>

datatype printed = AskedGot PixelFormat go_int go_int PixelFormat uint32 uint32

text \<open>
  A framer is \<^verbatim>\<open>func([]byte, func()) (Frame, error)\<close>; the release callbacks act
  on the driver's log. \<open>'f\<close> is the type of the frames.
\<close>

type_synonym 'f framer_fn =
  "byte list \<Rightarrow> (call list \<Rightarrow> call list) option \<Rightarrow> call list \<Rightarrow> (error + 'f) \<times> call list"

record 'f env =
  FourCCToPixelFormat :: "FourCC \<Rightarrow> error + PixelFormat"
  GetFramer :: "FourCC \<Rightarrow> go_int \<Rightarrow> go_int \<Rightarrow> go_int \<Rightarrow> go_int \<Rightarrow> error + 'f framer_fn"
  r_Open :: "string \<Rightarrow> error + nat"
  r_GetSupportedFormats :: "PixelFormat \<Rightarrow> string option"
  r_GetSupportedFrameSizes :: "PixelFormat \<Rightarrow> FrameSize list"
  r_SetImageFormat ::
    "PixelFormat \<Rightarrow> uint32 \<Rightarrow> uint32 \<Rightarrow> error + (PixelFormat \<times> uint32 \<times> uint32 \<times> uint32 \<times> uint32)"
  r_StartStreaming :: "error option"

subsection \<open>Channels and the pipeline's state\<close>

text \<open>
  \<^verbatim>\<open>c.stream = make(chan snap, 0)\<close> is unbuffered: it holds no element, and its
  state is whether it is closed. \<^verbatim>\<open>c.stop = make(chan struct{}, 1)\<close> is buffered
  and its elements carry no data: its state is how many it holds, its capacity and
  whether it is closed. A field that is \<open>None\<close> is the nil channel.
\<close>

record snap =
  snap_frame :: "byte list"
  snap_index :: uint32

record stream_chan =
  stream_closed :: bool

record stop_chan =
  stop_count :: nat
  stop_cap :: nat
  stop_closed :: bool

record 'f Snapper =
  cam :: "nat option"
  Timeout :: uint32
  Buffers :: uint32
  framer :: "'f framer_fn option"
  stop :: "stop_chan option"
  stream :: "stream_chan option"

text \<open>
  The program's state: the Snapper \<^verbatim>\<open>*c\<close>, the driver's log, the standard output,
  and whether a goroutine started by \<^verbatim>\<open>go c.capture()\<close> is running.
\<close>

record 'f sys = "'f Snapper" +
  drv :: "call list"
  out :: "printed list"
  capturing :: bool

definition defaultTimeout :: uint32 where
  "defaultTimeout = 5"

definition defaultBuffers :: uint32 where
  "defaultBuffers = 16"

definition NewSnapper :: "'f sys" where
  "NewSnapper =
     \<lparr>cam = None, Timeout = defaultTimeout, Buffers = defaultBuffers, framer = None,
      stop = None, stream = None, drv = [], out = [], capturing = False\<rparr>"

text \<open>
  What a call of the consumer does: it returns, it blocks forever, or the program dies
  of a panic.
\<close>

datatype 'a outcome = Returns 'a | Blocks | Crashes panic

subsection \<open>The capture process\<close>

text \<open>
  A \<^verbatim>\<open>select\<close> over two communications: when both can proceed one is picked at
  random (\<open>pick1\<close>), when one can it is taken, when none can the \<^verbatim>\<open>default\<close> runs
  if there is one, and the goroutine parks otherwise.
\<close>

datatype choice = FirstCase | SecondCase | DefaultCase | NoneReady

definition go_select :: "bool \<Rightarrow> bool \<Rightarrow> bool \<Rightarrow> bool \<Rightarrow> choice" where
  "go_select has_default ready1 ready2 pick1 =
     (if ready1 \<and> ready2 then (if pick1 then FirstCase else SecondCase)
      else if ready1 then FirstCase
      else if ready2 then SecondCase
      else if has_default then DefaultCase
      else NoneReady)"

text \<open>
  One iteration of the loop of \<^verbatim>\<open>capture\<close>. A tick is what the iteration meets:
  the result of \<^verbatim>\<open>WaitForFrame\<close>, the result of \<^verbatim>\<open>GetFrame\<close>, and the pick of
  the \<^verbatim>\<open>select\<close>. \<open>parked\<close> tells whether a goroutine is parked receiving on
  \<^verbatim>\<open>c.stream\<close>: a send on the unbuffered channel can proceed only then (and panics on
  a closed channel); a receive on \<^verbatim>\<open>c.stop\<close> can proceed when the buffer holds an
  element or the channel is closed; a nil channel is never ready.
\<close>

datatype wait_result = WaitOk | WaitTimeout | WaitError error

datatype tick = Tick wait_result "error + (byte list \<times> uint32)" bool

datatype iter = Continue | Sent snap | Stopped | Panicked panic | Parked

definition send_ready :: "bool \<Rightarrow> 'f sys \<Rightarrow> bool" where
  "send_ready parked s =
     (case stream s of None \<Rightarrow> False | Some st \<Rightarrow> stream_closed st \<or> parked)"

definition stop_ready :: "'f sys \<Rightarrow> bool" where
  "stop_ready s =
     (case stop s of None \<Rightarrow> False | Some sp \<Rightarrow> 0 < stop_count sp \<or> stop_closed sp)"

definition close_stream :: "'f sys \<Rightarrow> panic + 'f sys" where
  "close_stream s =
     (case stream s of
        None \<Rightarrow> Inl CloseOfNilChannel
      | Some st \<Rightarrow>
          if stream_closed st then Inl CloseOfClosedChannel
          else Inr (s\<lparr>stream := Some (st\<lparr>stream_closed := True\<rparr>)\<rparr>))"

definition recv_stop :: "'f sys \<Rightarrow> 'f sys" where
  "recv_stop s =
     (case stop s of
        None \<Rightarrow> s
      | Some sp \<Rightarrow> s\<lparr>stop := Some (sp\<lparr>stop_count := stop_count sp - 1\<rparr>)\<rparr>)"

fun capture_iter :: "bool \<Rightarrow> tick \<Rightarrow> 'f sys \<Rightarrow> iter \<times> 'f sys" where
  "capture_iter parked (Tick wr gf pick) s =
     (let s1 = s\<lparr>drv := drv s @ [cam_WaitForFrame (Timeout s)]\<rparr> in
      case wr of
        WaitTimeout \<Rightarrow> (Continue, s1)
      | WaitError e \<Rightarrow> (Panicked (PanicErr e), s1)
      | WaitOk \<Rightarrow>
          (let s2 = s1\<lparr>drv := drv s1 @ [cam_GetFrame]\<rparr> in
           case gf of
             Inl e \<Rightarrow> (Panicked (PanicErr e), s2)
           | Inr (fr, ix) \<Rightarrow>
               (case go_select True (send_ready parked s2) (stop_ready s2) pick of
                  FirstCase \<Rightarrow>
                    (case stream s2 of
                       None \<Rightarrow> (Parked, s2)
                     | Some st \<Rightarrow>
                         if stream_closed st then (Panicked SendOnClosedChannel, s2)
                         else (Sent \<lparr>snap_frame = fr, snap_index = ix\<rparr>, s2))
                | SecondCase \<Rightarrow>
                    (let s3 = recv_stop s2;
                         s4 = s3\<lparr>drv := drv s3 @ [cam_ReleaseFrame ix]\<rparr>
                     in case close_stream s4 of
                          Inl p \<Rightarrow> (Panicked p, s4)
                        | Inr s5 \<Rightarrow> (Stopped, s5\<lparr>capturing := False\<rparr>))
                | DefaultCase \<Rightarrow> (Continue, s2\<lparr>drv := drv s2 @ [cam_ReleaseFrame ix]\<rparr>)
                | NoneReady \<Rightarrow> (Parked, s2))))"

text \<open>
  The loop \<^verbatim>\<open>for { ... }\<close> of \<^verbatim>\<open>capture\<close> over the ticks it meets while no
  goroutine is parked on \<^verbatim>\<open>c.stream\<close>: it goes on after an iteration that continues,
  and ends with the iteration that stops it or panics. On the empty list it is still
  running.
\<close>

fun capture :: "tick list \<Rightarrow> 'f sys \<Rightarrow> iter \<times> 'f sys" where
  "capture [] s = (Continue, s)"
| "capture (t # ts) s =
     (case capture_iter False t s of
        (Continue, s') \<Rightarrow> capture ts s'
      | (r, s') \<Rightarrow> (r, s'))"

subsection \<open>Snap\<close>

text \<open>
  The receive \<^verbatim>\<open>snap, ok := <-c.stream\<close>. On a nil channel it blocks forever; on a
  closed channel it returns at once with \<open>ok = false\<close> (\<open>None\<close>); otherwise the
  caller parks, and only the capture process can wake it, by a send or by closing the
  channel. \<open>ticks\<close> are the iterations the capture process makes while the caller is
  parked; when there is no capture process, or it makes no iteration that wakes the
  caller, the caller stays blocked.
\<close>

fun recv_stream :: "tick list \<Rightarrow> 'f sys \<Rightarrow> snap option outcome \<times> 'f sys" where
  "recv_stream ticks s =
     (case stream s of
        None \<Rightarrow> (Blocks, s)
      | Some st \<Rightarrow>
          if stream_closed st then (Returns None, s)
          else if \<not> capturing s then (Blocks, s)
          else
            (case ticks of
               [] \<Rightarrow> (Blocks, s)
             | t # ts \<Rightarrow>
                 (case capture_iter True t s of
                    (Sent sn, s') \<Rightarrow> (Returns (Some sn), s')
                  | (Stopped, s') \<Rightarrow> (Returns None, s')
                  | (Panicked p, s') \<Rightarrow> (Crashes p, s')
                  | (Continue, s') \<Rightarrow> recv_stream ts s'
                  | (Parked, s') \<Rightarrow> (Blocks, s'))))"

definition Snap :: "tick list \<Rightarrow> 'f sys \<Rightarrow> (error + 'f) outcome \<times> 'f sys" where
  "Snap ticks s =
     (case recv_stream ticks s of
        (Blocks, s') \<Rightarrow> (Blocks, s')
      | (Crashes p, s') \<Rightarrow> (Crashes p, s')
      | (Returns None, s') \<Rightarrow> (Returns (Inl NoFrameReceived), s')
      | (Returns (Some sn), s') \<Rightarrow>
          (case framer s' of
             None \<Rightarrow> (Crashes NilDereference, s')
           | Some fn \<Rightarrow>
               (let (r, d) = fn (snap_frame sn)
                                (Some (\<lambda>d. d @ [cam_ReleaseFrame (snap_index sn)])) (drv s')
                in (Returns r, s'\<lparr>drv := d\<rparr>))))"

subsection \<open>Close\<close>

text \<open>
  The loop \<^verbatim>\<open>for f := range c.stream { c.cam.ReleaseFrame(f.index) }\<close>: receives
  until the channel is closed.
\<close>

fun drain :: "tick list \<Rightarrow> 'f sys \<Rightarrow> unit outcome \<times> 'f sys" where
  "drain ticks s =
     (case stream s of
        None \<Rightarrow> (Blocks, s)
      | Some st \<Rightarrow>
          if stream_closed st then (Returns (), s)
          else if \<not> capturing s then (Blocks, s)
          else
            (case ticks of
               [] \<Rightarrow> (Blocks, s)
             | t # ts \<Rightarrow>
                 (case capture_iter True t s of
                    (Sent sn, s') \<Rightarrow> drain ts (s'\<lparr>drv := drv s' @ [cam_ReleaseFrame (snap_index sn)]\<rparr>)
                  | (Stopped, s') \<Rightarrow> drain ts s'
                  | (Panicked p, s') \<Rightarrow> (Crashes p, s')
                  | (Continue, s') \<Rightarrow> drain ts s'
                  | (Parked, s') \<Rightarrow> (Blocks, s'))))"

text \<open>
  The send \<^verbatim>\<open>c.stop <- struct{}{}\<close> when the buffer is full: the caller parks until
  the capture process receives from \<^verbatim>\<open>c.stop\<close>, which it does in the iteration that
  stops it; the parked element then takes the place of the received one.
\<close>

fun send_stop_full :: "tick list \<Rightarrow> 'f sys \<Rightarrow> tick list outcome \<times> 'f sys" where
  "send_stop_full ticks s =
     (if \<not> capturing s then (Blocks, s)
      else
        (case ticks of
           [] \<Rightarrow> (Blocks, s)
         | t # ts \<Rightarrow>
             (case capture_iter False t s of
                (Stopped, s') \<Rightarrow>
                  (Returns ts,
                   s'\<lparr>stop := map_option (\<lambda>sp. sp\<lparr>stop_count := stop_count sp + 1\<rparr>) (stop s')\<rparr>)
              | (Panicked p, s') \<Rightarrow> (Crashes p, s')
              | (Parked, s') \<Rightarrow> (Blocks, s')
              | (Sent sn, s') \<Rightarrow> send_stop_full ts s'
              | (Continue, s') \<Rightarrow> send_stop_full ts s')))"

definition send_stop :: "tick list \<Rightarrow> 'f sys \<Rightarrow> tick list outcome \<times> 'f sys" where
  "send_stop ticks s =
     (case stop s of
        None \<Rightarrow> (Blocks, s)
      | Some sp \<Rightarrow>
          if stop_closed sp then (Crashes SendOnClosedChannel, s)
          else if stop_count sp < stop_cap sp then
            (Returns ticks, s\<lparr>stop := Some (sp\<lparr>stop_count := stop_count sp + 1\<rparr>)\<rparr>)
          else send_stop_full ticks s)"

definition Close :: "tick list \<Rightarrow> 'f sys \<Rightarrow> unit outcome \<times> 'f sys" where
  "Close ticks s =
     (if cam s \<noteq> None then
        (case send_stop ticks s of
           (Blocks, s1) \<Rightarrow> (Blocks, s1)
         | (Crashes p, s1) \<Rightarrow> (Crashes p, s1)
         | (Returns ts, s1) \<Rightarrow>
             (case drain ts s1 of
                (Blocks, s2) \<Rightarrow> (Blocks, s2)
              | (Crashes p, s2) \<Rightarrow> (Crashes p, s2)
              | (Returns u, s2) \<Rightarrow>
                  (Returns (), s2\<lparr>drv := drv s2 @ [cam_StopStreaming, cam_Close], cam := None\<rparr>)))
      else (Returns (), s))"

subsection \<open>Open\<close>

text \<open>The loop over the supported frame sizes, which stops at the first match.\<close>

fun found_size :: "FrameSize list \<Rightarrow> go_int \<Rightarrow> go_int \<Rightarrow> bool" where
  "found_size [] w h = False"
| "found_size (v # vs) w h = (if Match v w h then True else found_size vs w h)"

text \<open>
  The body of \<^verbatim>\<open>Open\<close> from \<^verbatim>\<open>c.cam = cam\<close> on, which yields the named
  result \<^verbatim>\<open>ret\<close>. On an error of \<^verbatim>\<open>GetFramer\<close> the framer it returns with the
  error, taken to be nil, is stored in \<^verbatim>\<open>c.framer\<close> all the same.
\<close>

definition Open_body ::
  "'f env \<Rightarrow> string \<Rightarrow> FourCC \<Rightarrow> PixelFormat \<Rightarrow> go_int \<Rightarrow> go_int \<Rightarrow> nat \<Rightarrow> 'f sys
     \<Rightarrow> error option \<times> 'f sys" where
  "Open_body e device format pf w h cm s =
     (let s0 = s\<lparr>cam := Some cm,
                 stop := Some \<lparr>stop_count = 0, stop_cap = 1, stop_closed = False\<rparr>,
                 stream := Some \<lparr>stream_closed = False\<rparr>\<rparr>;
          s1 = s0\<lparr>drv := drv s0 @ [cam_GetSupportedFormats]\<rparr>
      in
      if r_GetSupportedFormats e pf = None then (Some (UnsupportedFormat device format), s1)
      else
        (let s2 = s1\<lparr>drv := drv s1 @ [cam_GetSupportedFrameSizes pf]\<rparr> in
         if \<not> found_size (r_GetSupportedFrameSizes e pf) w h then
           (Some (UnsupportedResolution device w h), s2)
         else
           (let s3 = s2\<lparr>drv := drv s2 @ [cam_SetImageFormat pf (to_uint32 w) (to_uint32 h)]\<rparr> in
            case r_SetImageFormat e pf (to_uint32 w) (to_uint32 h) of
              Inl err \<Rightarrow> (Some err, s3)
            | Inr (npf, nw, nh, stride, size') \<Rightarrow>
                (let s4 = (if npf \<noteq> pf \<or> w \<noteq> to_int nw \<or> h \<noteq> to_int nh
                           then s3\<lparr>out := out s3 @ [AskedGot pf w h npf nw nh]\<rparr> else s3)
                 in
                 case GetFramer e format w h (to_int stride) (to_int size') of
                   Inl err \<Rightarrow> (Some err, s4\<lparr>framer := None\<rparr>)
                 | Inr fn \<Rightarrow>
                     (let s5 = s4\<lparr>framer := Some fn,
                                  drv := drv s4 @ [cam_SetBufferCount (Buffers s4),
                                                   cam_SetAutoWhiteBalance True,
                                                   cam_StartStreaming]\<rparr>
                      in
                      case r_StartStreaming e of
                        Some err \<Rightarrow> (Some err, s5)
                      | None \<Rightarrow> (None, s5\<lparr>capturing := True\<rparr>))))))"

text \<open>
  The deferred function: \<^verbatim>\<open>if ret != nil { close(c.stream); c.Close() }\<close>. No
  capture process runs then, so this \<^verbatim>\<open>Close\<close> meets no iteration of it.
\<close>

definition Open_deferred :: "error option \<Rightarrow> 'f sys \<Rightarrow> error option outcome \<times> 'f sys" where
  "Open_deferred ret s =
     (if ret \<noteq> None then
        (case close_stream s of
           Inl p \<Rightarrow> (Crashes p, s)
         | Inr s1 \<Rightarrow>
             (case Close [] s1 of
                (Blocks, s2) \<Rightarrow> (Blocks, s2)
              | (Crashes p, s2) \<Rightarrow> (Crashes p, s2)
              | (Returns u, s2) \<Rightarrow> (Returns ret, s2)))
      else (Returns ret, s))"

text \<open>
  \<^verbatim>\<open>Open\<close>. \<open>ticks\<close> are the iterations the capture process of an already open
  pipeline makes while the \<^verbatim>\<open>Close\<close> of step 2 waits for it.
\<close>

definition Open ::
  "'f env \<Rightarrow> tick list \<Rightarrow> string \<Rightarrow> FourCC \<Rightarrow> go_int \<Rightarrow> go_int \<Rightarrow> 'f sys
     \<Rightarrow> error option outcome \<times> 'f sys" where
  "Open e ticks device format w h s =
     (case FourCCToPixelFormat e format of
        Inl err \<Rightarrow> (Returns (Some err), s)
      | Inr pf \<Rightarrow>
          (case (if cam s \<noteq> None then Close ticks s else (Returns (), s)) of
             (Blocks, s0) \<Rightarrow> (Blocks, s0)
           | (Crashes p, s0) \<Rightarrow> (Crashes p, s0)
           | (Returns u, s0) \<Rightarrow>
               (let s1 = s0\<lparr>drv := drv s0 @ [webcam_Open device]\<rparr> in
                case r_Open e device of
                  Inl err \<Rightarrow> (Returns (Some err), s1)
                | Inr cm \<Rightarrow>
                    (let (ret, s2) = Open_body e device format pf w h cm s1
                     in Open_deferred ret s2))))"

subsection \<open>The states a program reaches\<close>

text \<open>
  The states of a program with one consumer goroutine, which starts from a new Snapper,
  sets the exported fields, calls \<^verbatim>\<open>Open\<close>, \<^verbatim>\<open>Snap\<close> and \<^verbatim>\<open>Close\<close> one after
  the other, and calls the driver through the frames it holds and through
  \<^verbatim>\<open>GetControl\<close> and \<^verbatim>\<open>SetControl\<close>, which only pass on to the driver. Between
  two calls the capture process, when there is one, makes iterations with nobody parked
  on \<^verbatim>\<open>c.stream\<close>. A call that blocks forever or a panic ends the run.
\<close>

inductive reachable :: "'f sys \<Rightarrow> bool" where
  reach_new: "reachable NewSnapper"
| reach_fields: "reachable s \<Longrightarrow> reachable (s\<lparr>Timeout := t, Buffers := b\<rparr>)"
| reach_driver: "reachable s \<Longrightarrow> reachable (s\<lparr>drv := drv s @ cs\<rparr>)"
| reach_capture:
    "reachable s \<Longrightarrow> capturing s \<Longrightarrow> capture_iter False t s = (Continue, s') \<Longrightarrow> reachable s'"
| reach_Open:
    "reachable s \<Longrightarrow> Open e ticks device format w h s = (Returns ret, s') \<Longrightarrow> reachable s'"
| reach_Snap: "reachable s \<Longrightarrow> Snap ticks s = (Returns r, s') \<Longrightarrow> reachable s'"
| reach_Close: "reachable s \<Longrightarrow> Close ticks s = (Returns u, s') \<Longrightarrow> reachable s'"

text \<open>
  What holds in each of them: a closed pipeline has no capture process and its stream
  channel is nil or closed; an open one has a capture process, an open stream channel and
  an empty, open stop channel of capacity 1.
\<close>

definition pipeline_inv :: "'f sys \<Rightarrow> bool" where
  "pipeline_inv s =
     (if cam s = None
      then \<not> capturing s \<and> (stream s = None \<or> stream s = Some \<lparr>stream_closed = True\<rparr>)
      else capturing s \<and> stream s = Some \<lparr>stream_closed = False\<rparr> \<and>
           stop s = Some \<lparr>stop_count = 0, stop_cap = 1, stop_closed = False\<rparr>)"

subsection \<open>A driver and a registry for the examples\<close>

text \<open>
  The registry holds \<^verbatim>\<open>newFramerRGB3\<close>, with padding disabled, under the code
  \<^verbatim>\<open>RGB3\<close>, as \<^verbatim>\<open>init\<close> registers it. The device supports that format at the even
  sizes from 2 by 2 to 640 by 480, and whatever size is asked for it sets 4 by 4, with
  a stride of 12 and a size of 48 bytes. \<open>example_open\<close> is the pipeline after
  \<^verbatim>\<open>Open\<close> of a new Snapper on this device, asking for 2 by 2.
\<close>

definition example_env :: "(call list) fRGB3 env" where
  "example_env =
     \<lparr>FourCCToPixelFormat =
        (\<lambda>f. if f = ''RGB3'' then Inr 0x33424752 else Inl (External ''unknown format'')),
      GetFramer =
        (\<lambda>f w h stride size'.
           if f = ''RGB3'' then Inr (newFramerRGB3 False w h) else Inl (External ''no framer'')),
      r_Open = (\<lambda>d. Inr 3),
      r_GetSupportedFormats = (\<lambda>pf. if pf = 0x33424752 then Some ''24-bit RGB'' else None),
      r_GetSupportedFrameSizes =
        (\<lambda>pf. [\<lparr>MinWidth = 2, MaxWidth = 640, StepWidth = 2,
                 MinHeight = 2, MaxHeight = 480, StepHeight = 2\<rparr>]),
      r_SetImageFormat = (\<lambda>pf w h. Inr (pf, 4, 4, 12, 48)),
      r_StartStreaming = None\<rparr>"

definition example_open :: "(call list) fRGB3 sys" where
  "example_open = snd (Open example_env [] ''/dev/video0'' ''RGB3'' 2 2 NewSnapper)"

section \<open>Frame-size matching: properties\<close>

lemma canFit_unat:
  "canFit mn mx step val =
     ((mn = mx \<and> step = 0 \<and> val = mn) \<or>
      (step \<noteq> 0 \<and> unat mn \<le> unat val \<and> unat val \<le> unat mx \<and>
       (unat val - unat mn) mod unat step = 0))"
proof (cases "mn \<le> val")
  case True
  then have sub: "unat (val - mn) = unat val - unat mn"
    by (simp add: unat_sub)
  have "((val - mn) mod step = 0) = (unat ((val - mn) mod step) = 0)"
    by (simp add: unat_eq_0)
  also have "\<dots> = ((unat val - unat mn) mod unat step = 0)"
    by (simp add: unat_mod sub)
  finally show ?thesis
    using True by (auto simp: canFit_def word_le_nat_alt)
next
  case False
  then show ?thesis
    by (auto simp: canFit_def word_le_nat_alt)
qed

text \<open>
  C4. \<^verbatim>\<open>canFit(min, max, step, val)\<close> holds exactly when the range is one fixed
  size equal to \<open>val\<close>, or the step is not zero, \<open>val\<close> lies in the range and
  \<open>val - min\<close>, as a natural number, is a multiple of the step; the three values of the
  specification; and \<^verbatim>\<open>Match\<close> holds only when the width and the height, converted
  to \<^verbatim>\<open>uint32\<close> as the code does, each fit their range.
\<close>

theorem canFit_rule:
  "canFit mn mx step val =
     ((mn = mx \<and> step = 0 \<and> val = mn) \<or>
      (step \<noteq> 0 \<and> unat mn \<le> unat val \<and> unat val \<le> unat mx \<and>
       (unat val - unat mn) mod unat step = 0)) \<and>
   canFit 100 100 0 100 \<and> \<not> canFit 100 200 10 105 \<and> canFit 100 200 10 110 \<and>
   (Match fs w h \<longrightarrow>
      canFit (MinWidth fs) (MaxWidth fs) (StepWidth fs) (to_uint32 w) \<and>
      canFit (MinHeight fs) (MaxHeight fs) (StepHeight fs) (to_uint32 h)) \<and>
   (\<not> canFit (MinWidth fs) (MaxWidth fs) (StepWidth fs) (to_uint32 w) \<longrightarrow> \<not> Match fs w h) \<and>
   (\<not> canFit (MinHeight fs) (MaxHeight fs) (StepHeight fs) (to_uint32 h) \<longrightarrow> \<not> Match fs w h)"
proof -
  have a: "canFit 100 100 0 100" by (simp add: canFit_def)
  have b: "\<not> canFit 100 200 10 105" by (simp add: canFit_def)
  have c: "canFit 100 200 10 110" by (simp add: canFit_def)
  show ?thesis
    using canFit_unat[of mn mx step val] a b c by (simp add: Match_def)
qed

theorem canFit_rule_witness:
  "Match \<lparr>MinWidth = 640, MaxWidth = 1920, StepWidth = 16,
          MinHeight = 480, MaxHeight = 480, StepHeight = 0\<rparr> 1280 480 \<and>
   canFit 640 1920 16 (to_uint32 1280) \<and> canFit 480 480 0 (to_uint32 480)"
proof -
  have m: "Match \<lparr>MinWidth = 640, MaxWidth = 1920, StepWidth = 16,
                   MinHeight = 480, MaxHeight = 480, StepHeight = 0\<rparr> 1280 480"
    by (simp add: Match_def canFit_def to_uint32_def)
  show ?thesis
    using m canFit_rule[of 640 1920 16 1280
        "\<lparr>MinWidth = 640, MaxWidth = 1920, StepWidth = 16,
          MinHeight = 480, MaxHeight = 480, StepHeight = 0\<rparr>" 1280 480]
    by simp
qed

section \<open>The RGB3 framer: properties\<close>

subsection \<open>Length validation and release\<close>

text \<open>
  C2. A decode call of the RGB3 framer with a buffer whose length differs from the
  expected size fails with the length-mismatch error carrying the expected and the actual
  size, and leaves the state that one call of the release callback makes (the state
  unchanged when the callback is nil); with a buffer of the expected size it succeeds
  without touching the state, and \<^verbatim>\<open>Release\<close> of the frame it returns is one call of
  that callback.
\<close>

theorem frameRGB3_length_validation:
  "(len b \<noteq> fst (newFramerRGB3_vars padded w h) \<longrightarrow>
      newFramerRGB3 padded w h b rel s =
        (Inl (WrongFrameLength (fst (newFramerRGB3_vars padded w h)) (len b)),
         (case rel of None \<Rightarrow> s | Some r \<Rightarrow> r s))) \<and>
   (len b = fst (newFramerRGB3_vars padded w h) \<longrightarrow>
      (\<exists>f. newFramerRGB3 padded w h b rel s = (Inr f, s) \<and> frame f = b \<and> release f = rel \<and>
           (\<forall>t. Release f t = (case rel of None \<Rightarrow> t | Some r \<Rightarrow> r t))))"
  by (simp add: newFramerRGB3_def frameRGB3_def Release_def split: prod.splits)

text \<open>In the example the state is a count of the calls of the release callback.\<close>

theorem frameRGB3_length_validation_witness:
  "newFramerRGB3 False 2 1 [1, 2, 3] (Some Suc) (0::nat) = (Inl (WrongFrameLength 6 3), 1) \<and>
   newFramerRGB3 False 2 1 [1, 2, 3] None (0::nat) = (Inl (WrongFrameLength 6 3), 0) \<and>
   (\<exists>f. newFramerRGB3 False 1 1 [1, 2, 3] (Some Suc) (0::nat) = (Inr f, 0) \<and> Release f 0 = 1)"
  using frameRGB3_length_validation[of "[1, 2, 3]" False 2 1 "Some Suc" "0::nat"]
    frameRGB3_length_validation[of "[1, 2, 3]" False 2 1 None "0::nat"]
    frameRGB3_length_validation[of "[1, 2, 3]" False 1 1 "Some Suc" "0::nat"]
  by (auto simp: newFramerRGB3_vars_def len_def)

subsection \<open>Arithmetic on 64-bit integers that does not overflow\<close>

lemma and_not_mask_int: "(k::int) AND NOT (mask n) = 2 ^ n * (k div 2 ^ n)"
proof -
  have "k AND NOT (mask n) = push_bit n (drop_bit n k)"
    by (rule bit_eqI) (auto simp: bit_simps)
  then show ?thesis
    by (simp add: push_bit_eq_mult drop_bit_eq_div)
qed

lemma sint_of_nat_fits: "n < 2 ^ 63 \<Longrightarrow> sint (of_nat n :: go_int) = int n"
proof -
  assume "n < 2 ^ 63"
  then have "int n < 2 ^ 63" by (metis of_nat_less_numeral_power_cancel_iff)
  then show ?thesis
    by (simp add: signed_of_nat signed_take_bit_int_eq_self)
qed

lemma sint_add_fits:
  "- (2 ^ 63) \<le> sint a + sint b \<Longrightarrow> sint a + sint b < 2 ^ 63 \<Longrightarrow> sint (a + b :: go_int) = sint a + sint b"
  by (simp add: sint_word_add signed_take_bit_int_eq_self)

lemma sint_mult_fits:
  "- (2 ^ 63) \<le> sint a * sint b \<Longrightarrow> sint a * sint b < 2 ^ 63 \<Longrightarrow> sint (a * b :: go_int) = sint a * sint b"
  by (simp add: sint_word_mult signed_take_bit_int_eq_self)

lemma sint_add_nonneg:
  "0 \<le> sint a \<Longrightarrow> 0 \<le> sint b \<Longrightarrow> sint a + sint b < 2 ^ 63 \<Longrightarrow> sint (a + b :: go_int) = sint a + sint b"
  by (rule sint_add_fits) auto

lemma sint_mult_nonneg:
  assumes "0 \<le> sint a" "0 \<le> sint b" "sint a * sint b < 2 ^ 63"
  shows "sint (a * b :: go_int) = sint a * sint b"
proof (rule sint_mult_fits)
  have "0 \<le> sint a * sint b" using assms(1,2) by simp
  then show "- (2 ^ 63) \<le> sint a * sint b" by simp
  show "sint a * sint b < 2 ^ 63" by (rule assms(3))
qed

lemma sint_and_not_31: "sint ((a :: go_int) AND NOT 31) = 32 * (sint a div 32)"
proof -
  have "sint (a AND NOT 31) = sint a AND sint (NOT 31 :: go_int)"
    by (simp add: signed_and_eq)
  also have "sint (NOT 31 :: go_int) = NOT (mask 5)"
    by (simp add: mask_eq_exp_minus_1)
  finally show ?thesis
    by (simp add: and_not_mask_int)
qed

lemma sint_and_not_15: "sint ((a :: go_int) AND NOT 15) = 16 * (sint a div 16)"
proof -
  have "sint (a AND NOT 15) = sint a AND sint (NOT 15 :: go_int)"
    by (simp add: signed_and_eq)
  also have "sint (NOT 15 :: go_int) = NOT (mask 4)"
    by (simp add: mask_eq_exp_minus_1)
  finally show ?thesis
    by (simp add: and_not_mask_int)
qed

text \<open>The next multiple of m at or above k is unique.\<close>

lemma next_multiple_unique:
  fixes k r :: int
  assumes "0 < m" "m dvd r" "k \<le> r" "r < k + m"
  shows "r = m * ((k + (m - 1)) div m)"
proof -
  from assms(2) obtain q where r: "r = m * q" by (auto simp: dvd_def)
  have "(k + (m - 1)) div m = q"
  proof (rule int_div_pos_eq[where r = "k + (m - 1) - m * q"])
    show "k + (m - 1) = m * q + (k + (m - 1) - m * q)" by simp
    show "0 \<le> k + (m - 1) - m * q" using assms(4) r by simp
    show "k + (m - 1) - m * q < m" using assms(3) r by simp
  qed
  then show ?thesis using r by simp
qed

lemma padded_stride:
  assumes w: "0 \<le> sint w" and st: "32 dvd stride" "sint w \<le> stride" "stride < sint w + 32"
    and fit: "stride < 2 ^ 63"
  shows "sint (((w :: go_int) + 31) AND NOT 31) = stride"
proof -
  have "sint w + 31 < 2 ^ 63"
  proof -
    obtain q where q: "stride = 32 * q" using st(1) by (auto simp: dvd_def)
    have "(2::int) ^ 63 = 32 * 2 ^ 58" by simp
    with fit q have "q < 2 ^ 58" by simp
    then have "q + 1 \<le> 2 ^ 58" by simp
    then have "32 * (q + 1) \<le> (2::int) ^ 63" by simp
    with st(2) q show ?thesis by simp
  qed
  then have "sint (w + 31) = sint w + 31"
    using w sint_add_fits[of w 31] by simp
  then have "sint ((w + 31) AND NOT 31) = 32 * ((sint w + 31) div 32)"
    by (simp only: sint_and_not_31)
  also have "\<dots> = stride"
    using next_multiple_unique[of 32 stride "sint w"] st by simp
  finally show ?thesis .
qed

lemma padded_rows:
  assumes h: "0 \<le> sint h" and st: "16 dvd rows" "sint h \<le> rows" "rows < sint h + 16"
    and fit: "rows < 2 ^ 63"
  shows "sint (((h :: go_int) + 15) AND NOT 15) = rows"
proof -
  have "sint h + 15 < 2 ^ 63"
  proof -
    obtain q where q: "rows = 16 * q" using st(1) by (auto simp: dvd_def)
    have "(2::int) ^ 63 = 16 * 2 ^ 59" by simp
    with fit q have "q < 2 ^ 59" by simp
    then have "q + 1 \<le> 2 ^ 59" by simp
    then have "16 * (q + 1) \<le> (2::int) ^ 63" by simp
    with st(2) q show ?thesis by simp
  qed
  then have "sint (h + 15) = sint h + 15"
    using h sint_add_fits[of h 15] by simp
  then have "sint ((h + 15) AND NOT 15) = 16 * ((sint h + 15) div 16)"
    by (simp only: sint_and_not_15)
  also have "\<dots> = rows"
    using next_multiple_unique[of 16 rows "sint h"] st by simp
  finally show ?thesis .
qed

lemma padded_vars:
  assumes w: "0 \<le> sint w" and h: "0 \<le> sint h"
    and st: "32 dvd stride" "sint w \<le> stride" "stride < sint w + 32"
    and ro: "16 dvd rows" "sint h \<le> rows" "rows < sint h + 16"
    and sfit: "stride < 2 ^ 63" and rfit: "rows < 2 ^ 63"
    and fit: "3 * stride * rows < 2 ^ 63"
  shows "\<exists>size' bw. newFramerRGB3_vars True w h = (size', bw) \<and> sint bw = stride \<and>
           sint size' = 3 * stride * rows"
proof -
  have s0: "0 \<le> stride" and r0: "0 \<le> rows" using w h st ro by auto
  have bw: "sint ((w + 31) AND NOT 31) = stride"
    using padded_stride[OF w st sfit] .
  have bh: "sint ((h + 15) AND NOT 15) = rows"
    using padded_rows[OF h ro rfit] .
  have "sint (3 * ((w + 31) AND NOT 31) * ((h + 15) AND NOT 15)) = 3 * stride * rows"
  proof (cases "rows = 0")
    case True
    with bh have "(h + 15) AND NOT 15 = 0"
      by (simp add: signed_eq_0_iff)
    with True show ?thesis by simp
  next
    case False
    then have r1: "1 \<le> rows" using r0 by auto
    have "3 * stride * 1 \<le> 3 * stride * rows" using s0 r1 by (intro mult_left_mono) auto
    then have f3: "3 * stride < 2 ^ 63" using fit by simp
    have m1: "sint (3 * ((w + 31) AND NOT 31)) = 3 * stride"
      using sint_mult_nonneg[of 3 "(w + 31) AND NOT 31"] bw f3 s0 by simp
    show ?thesis
      using sint_mult_nonneg[of "3 * ((w + 31) AND NOT 31)" "(h + 15) AND NOT 15"] m1 bh fit s0 r0
      by simp
  qed
  then show ?thesis
    using bw by (simp add: newFramerRGB3_vars_def Let_def)
qed

lemma non_padded_vars:
  assumes w: "0 \<le> sint w" and h: "1 \<le> sint h" and fit: "3 * sint w * sint h < 2 ^ 63"
  shows "\<exists>size'. newFramerRGB3_vars False w h = (size', 0) \<and> sint size' = 3 * sint w * sint h"
proof -
  have "3 * sint h * 1 \<le> 3 * sint h * sint w \<or> sint w = 0"
    using w h by (cases "sint w = 0") (auto intro!: mult_left_mono)
  then have "3 * sint h < 2 ^ 63 \<or> sint w = 0"
    using fit by (auto simp: mult.assoc mult.left_commute mult.commute)
  moreover have "sint w = 0 \<Longrightarrow> sint (3 * h * w) = 3 * sint w * sint h"
    by (simp add: signed_eq_0_iff)
  moreover have "3 * sint h < 2 ^ 63 \<Longrightarrow> sint (3 * h * w) = 3 * sint w * sint h"
  proof -
    assume a: "3 * sint h < 2 ^ 63"
    have m1: "sint (3 * h) = 3 * sint h"
      using sint_mult_nonneg[of 3 h] a h by simp
    have "3 * sint h * sint w < 2 ^ 63" using fit by (simp add: mult.assoc mult.left_commute mult.commute)
    then show ?thesis
      using sint_mult_nonneg[of "3 * h" w] m1 w h by (simp add: mult.assoc mult.left_commute mult.commute)
  qed
  ultimately show ?thesis
    by (auto simp: newFramerRGB3_vars_def Let_def)
qed

lemma index_bound:
  fixes x y st ro :: int
  assumes "0 \<le> x" "x < st" "0 \<le> y" "y < ro"
  shows "0 \<le> st * y" and "st * y * 3 + x * 3 + 2 < 3 * st * ro" and "st * y \<le> st * ro"
proof -
  have st0: "0 \<le> st" using assms by simp
  show p0: "0 \<le> st * y" using st0 assms(3) by simp
  have "st * (y + 1) \<le> st * ro" using st0 assms(4) by (intro mult_left_mono) auto
  then have le: "st * y + st \<le> st * ro" by (simp add: algebra_simps)
  then show "st * y \<le> st * ro" using st0 by simp
  from le have "3 * (st * y) + 3 * st \<le> 3 * (st * ro)" by simp
  then show "st * y * 3 + x * 3 + 2 < 3 * st * ro" using assms(2) by (simp add: algebra_simps)
qed

lemma At_reads:
  assumes i: "sint (width f * y * 3 + x * 3) = i" and i0: "0 \<le> i"
    and il: "i + 2 < int (length (frame f))" and blen: "length (frame f) < 2 ^ 63"
  shows "At f x y = Inr \<lparr>R = frame f ! nat i, G = frame f ! nat (i + 1),
                          B = frame f ! nat (i + 2), A = 0xFF\<rparr>"
proof -
  have lb: "int (length (frame f)) < 2 ^ 63"
    using blen by (metis of_nat_less_numeral_power_cancel_iff)
  have i1: "sint (width f * y * 3 + x * 3 + 1) = i + 1"
    using sint_add_nonneg[of "width f * y * 3 + x * 3" 1] i i0 il lb by simp
  have i2: "sint (width f * y * 3 + x * 3 + 2) = i + 2"
    using sint_add_nonneg[of "width f * y * 3 + x * 3" 2] i i0 il lb by simp
  have r: "index (frame f) (width f * y * 3 + x * 3) = Inr (frame f ! nat i)"
    using i i0 il by (simp add: index_def)
  have g: "index (frame f) (width f * y * 3 + x * 3 + 1) = Inr (frame f ! nat (i + 1))"
    using i1 i0 il by (simp add: index_def)
  have b: "index (frame f) (width f * y * 3 + x * 3 + 2) = Inr (frame f ! nat (i + 2))"
    using i2 i0 il by (simp add: index_def)
  show ?thesis
    by (simp add: At_def Let_def r g b)
qed

lemma newFramerRGB3_accepts:
  "newFramerRGB3 padded w h b rel s = (Inr f, s') \<Longrightarrow>
     len b = fst (newFramerRGB3_vars padded w h) \<and> width f = snd (newFramerRGB3_vars padded w h) \<and>
     frame f = b \<and> release f = rel \<and> s' = s"
  by (auto simp: newFramerRGB3_def frameRGB3_def split: prod.splits if_splits)


subsection \<open>The padded size\<close>

text \<open>
  The roundings without a condition on the sign: \<open>stride\<close> is the width rounded up to
  the next multiple of 32 when 32 divides it and \<open>w \<le> stride < w + 32\<close>, and \<open>rows\<close>
  is the height rounded up to the next multiple of 16 likewise.
\<close>

lemma sint_lower: "- (2 ^ 63) \<le> sint (a :: go_int)"
  using sint_ge[of a] by simp

lemma sint_of_int_fits:
  "- (2 ^ 63) \<le> k \<Longrightarrow> k < 2 ^ 63 \<Longrightarrow> sint (of_int k :: go_int) = k"
  by (simp add: signed_of_int signed_take_bit_int_eq_self)

lemma rounded_stride:
  assumes st: "32 dvd stride" "sint w \<le> stride" "stride < sint w + 32" and fit: "stride < 2 ^ 63"
  shows "sint (((w :: go_int) + 31) AND NOT 31) = stride"
proof -
  have "sint w + 31 < 2 ^ 63"
  proof -
    obtain q where q: "stride = 32 * q" using st(1) by (auto simp: dvd_def)
    have "(2::int) ^ 63 = 32 * 2 ^ 58" by simp
    with fit q have "q < 2 ^ 58" by simp
    then have "32 * (q + 1) \<le> (2::int) ^ 63" by simp
    with st(2) q show ?thesis by simp
  qed
  then have "sint (w + 31) = sint w + 31"
    using sint_lower[of w] sint_add_fits[of w 31] by simp
  then have "sint ((w + 31) AND NOT 31) = 32 * ((sint w + 31) div 32)"
    by (simp only: sint_and_not_31)
  also have "\<dots> = stride"
    using next_multiple_unique[of 32 stride "sint w"] st by simp
  finally show ?thesis .
qed

lemma rounded_rows:
  assumes st: "16 dvd rows" "sint h \<le> rows" "rows < sint h + 16" and fit: "rows < 2 ^ 63"
  shows "sint (((h :: go_int) + 15) AND NOT 15) = rows"
proof -
  have "sint h + 15 < 2 ^ 63"
  proof -
    obtain q where q: "rows = 16 * q" using st(1) by (auto simp: dvd_def)
    have "(2::int) ^ 63 = 16 * 2 ^ 59" by simp
    with fit q have "q < 2 ^ 59" by simp
    then have "16 * (q + 1) \<le> (2::int) ^ 63" by simp
    with st(2) q show ?thesis by simp
  qed
  then have "sint (h + 15) = sint h + 15"
    using sint_lower[of h] sint_add_fits[of h 15] by simp
  then have "sint ((h + 15) AND NOT 15) = 16 * ((sint h + 15) div 16)"
    by (simp only: sint_and_not_15)
  also have "\<dots> = rows"
    using next_multiple_unique[of 16 rows "sint h"] st by simp
  finally show ?thesis .
qed

text \<open>A buffer is accepted exactly when \<^verbatim>\<open>len(b)\<close> is the expected size.\<close>

lemma frameRGB3_accepts_iff:
  "(\<exists>f. frameRGB3 size' bw w h b rel s = (Inr f, s)) = (sint (len b) = sint size')"
proof -
  have "(len b = size') = (sint (len b) = sint size')"
    by (metis signed_word_eqI)
  then show ?thesis
    by (auto simp: frameRGB3_def)
qed

text \<open>
  C5, as stated, fails where the arithmetic of \<^verbatim>\<open>int\<close> overflows: for a width and a
  height of \<open>2 ^ 32\<close>, both of them multiples of 32 and of 16 already, the stride is
  \<open>2 ^ 32\<close> and the expected size is 0, not \<open>3 * 2 ^ 32 * 2 ^ 32\<close>, and the decoder of
  that size accepts the empty buffer.
\<close>

theorem padded_size_overflows:
  "\<exists>size' bw. newFramerRGB3_vars True 4294967296 4294967296 = (size', bw) \<and>
      sint bw = 4294967296 \<and> sint size' = 0 \<and>
      sint size' \<noteq> 3 * 4294967296 * 4294967296 \<and>
      (\<exists>f. newFramerRGB3 True 4294967296 4294967296 [] None () = (Inr f, ()))"
  by (simp add: newFramerRGB3_def newFramerRGB3_vars_def frameRGB3_def len_def)


text \<open>
  C5, amended. With padding enabled, when the width rounded up to the next multiple of
  32 (\<open>stride\<close>), the height rounded up to the next multiple of 16 (\<open>rows\<close>) and the
  number \<open>3 * stride * rows\<close> are values of \<^verbatim>\<open>int\<close>, the decoder that
  \<^verbatim>\<open>newFramerRGB3\<close> returns has the stride \<open>stride\<close> and the expected size
  \<open>3 * stride * rows\<close>, and it accepts a buffer exactly when \<^verbatim>\<open>len(b)\<close> is that
  number. For 50 by 10 the stride is 64, the rows are 16 and the size is 3072.
\<close>

theorem padded_size:
  assumes "32 dvd stride" and "sint w \<le> stride" and "stride < sint w + 32"
    and "16 dvd rows" and "sint h \<le> rows" and "rows < sint h + 16"
    and "stride < 2 ^ 63" and "rows < 2 ^ 63"
    and "- (2 ^ 63) \<le> 3 * stride * rows" and "3 * stride * rows < 2 ^ 63"
  shows "(\<exists>size' bw. newFramerRGB3_vars True w h = (size', bw) \<and>
            newFramerRGB3 True w h = frameRGB3 size' bw w h \<and>
            sint bw = stride \<and> sint size' = 3 * stride * rows) \<and>
         (\<exists>f. newFramerRGB3 True w h b rel s = (Inr f, s)) =
            (sint (len b) = 3 * stride * rows) \<and>
         newFramerRGB3_vars True 50 10 = (3072, 64)"
proof -
  let ?bw = "(w + 31) AND NOT 31" and ?bh = "(h + 15) AND NOT 15"
  have bw: "sint ?bw = stride" using rounded_stride[OF assms(1,2,3,7)] .
  have bh: "sint ?bh = rows" using rounded_rows[OF assms(4,5,6,8)] .
  have e1: "?bw = of_int stride" unfolding bw[symmetric] by simp
  have e2: "?bh = of_int rows" unfolding bh[symmetric] by simp
  have "3 * ?bw * ?bh = of_int (3 * stride * rows)"
    unfolding e1 e2 by simp
  then have sz: "sint (3 * ?bw * ?bh) = 3 * stride * rows"
    using sint_of_int_fits[OF assms(9,10)] by (simp only:)
  have v: "newFramerRGB3_vars True w h = (3 * ?bw * ?bh, ?bw)"
    by (simp add: newFramerRGB3_vars_def Let_def)
  have n: "newFramerRGB3 True w h = frameRGB3 (3 * ?bw * ?bh) ?bw w h"
    by (simp add: newFramerRGB3_def v)
  have a: "(\<exists>f. newFramerRGB3 True w h b rel s = (Inr f, s)) =
             (sint (len b) = 3 * stride * rows)"
  proof -
    have "(\<exists>f. newFramerRGB3 True w h b rel s = (Inr f, s)) =
          (\<exists>f. frameRGB3 (3 * ?bw * ?bh) ?bw w h b rel s = (Inr f, s))"
      by (simp only: n)
    also have "\<dots> = (sint (len b) = sint (3 * ?bw * ?bh))"
      by (rule frameRGB3_accepts_iff)
    also have "\<dots> = (sint (len b) = 3 * stride * rows)"
      by (simp only: sz)
    finally show ?thesis .
  qed
  have e: "newFramerRGB3_vars True 50 10 = (3072, 64)"
    by (simp add: newFramerRGB3_vars_def)
  show ?thesis
    using v n bw sz a e by blast
qed

theorem padded_size_witness:
  "(\<exists>size' bw. newFramerRGB3_vars True 50 10 = (size', bw) \<and> sint bw = 64 \<and>
      sint size' = 3 * 64 * 16) \<and>
   (\<exists>f. newFramerRGB3 True 50 10 (replicate 3072 0) None () = (Inr f, ()))"
proof -
  note p = padded_size[of 64 50 16 10 "replicate 3072 0" "None :: (unit \<Rightarrow> unit) option" "()"]
  have c: "(\<exists>size' bw. newFramerRGB3_vars True 50 10 = (size', bw) \<and>
            newFramerRGB3 True 50 10 = frameRGB3 size' bw 50 10 \<and>
            sint bw = 64 \<and> sint size' = 3 * 64 * 16) \<and>
         (\<exists>f. newFramerRGB3 True 50 10 (replicate 3072 0) None () = (Inr f, ())) =
            (sint (len (replicate 3072 (0::byte))) = 3 * 64 * 16) \<and>
         newFramerRGB3_vars True 50 10 = (3072, 64)"
    by (rule p) simp_all
  have m: "sint (len (replicate 3072 (0::byte))) = 3 * 64 * 16" by (simp add: len_def)
  from c m show ?thesis by blast
qed


subsection \<open>Pixel addressing\<close>

text \<open>
  C1. Without padding \<^verbatim>\<open>newFramerRGB3\<close> leaves \<^verbatim>\<open>bw\<close> at zero, so the stride
  of the frame is 0 and \<^verbatim>\<open>At(x, y)\<close> reads offset \<open>3 * x\<close> whatever the row: on the
  2 by 2 frame whose bytes are 0 to 11, \<^verbatim>\<open>At(0, 1)\<close> returns the bytes 0, 1, 2 of the
  first row, not the bytes 6, 7, 8 at offset \<open>3 * (2 * 1 + 0)\<close>.
\<close>

theorem At_non_padded_ignores_row:
  "\<exists>f. newFramerRGB3 False 2 2 [0, 1, 2, 3, 4, 5, 6, 7, 8, 9, 10, 11] None () = (Inr f, ()) \<and>
       width f = 0 \<and>
       At f 0 1 = Inr \<lparr>R = 0, G = 1, B = 2, A = 0xFF\<rparr> \<and>
       At f 0 1 = At f 0 0"
  by (simp add: newFramerRGB3_def newFramerRGB3_vars_def frameRGB3_def len_def At_def index_def)

text \<open>
  C10, as stated, fails when the size overflows: for a width and a height of
  \<open>2 ^ 32\<close> the expected size \<open>3 * 2 ^ 64\<close> wraps around to 0, the empty buffer is
  accepted, and \<^verbatim>\<open>At(0, 0)\<close> indexes it out of range.
\<close>

theorem At_out_of_bounds_on_overflow:
  "\<exists>f. newFramerRGB3 False 4294967296 4294967296 [] None () = (Inr f, ()) \<and>
       length ([] :: byte list) < 2 ^ 63 \<and>
       0 \<le> sint (0 :: go_int) \<and> sint (0 :: go_int) < sint (4294967296 :: go_int) \<and>
       At f 0 0 = Inl (IndexOutOfRange 0 0)"
  by (simp add: newFramerRGB3_def newFramerRGB3_vars_def frameRGB3_def len_def At_def index_def)

text \<open>
  C10, amended. For a buffer the framer accepts and a coordinate inside the frame, the
  three indices \<^verbatim>\<open>At\<close> reads are inside the buffer, and \<^verbatim>\<open>At\<close> returns the bytes
  there with alpha \<open>0xFF\<close>, with padding and without, when the size
  \<open>3 * stride * rows\<close> is a value of \<^verbatim>\<open>int\<close>: \<open>stride\<close> and \<open>rows\<close> are the width
  and the height, rounded up to the next multiple of 32 and of 16 when padding is enabled.
\<close>

theorem At_in_bounds:
  assumes acc: "newFramerRGB3 padded w h b rel s = (Inr f, s')"
    and blen: "length b < 2 ^ 63"
    and xy: "0 \<le> sint x" "sint x < sint w" "0 \<le> sint y" "sint y < sint h"
    and geom: "if padded
               then 32 dvd stride \<and> sint w \<le> stride \<and> stride < sint w + 32 \<and>
                    16 dvd rows \<and> sint h \<le> rows \<and> rows < sint h + 16
               else stride = sint w \<and> rows = sint h"
    and fit: "3 * stride * rows < 2 ^ 63"
  shows "0 \<le> sint (width f) * sint y * 3 + sint x * 3 \<and>
         sint (width f) * sint y * 3 + sint x * 3 + 2 < int (length b) \<and>
         At f x y =
           Inr \<lparr>R = b ! nat (sint (width f) * sint y * 3 + sint x * 3),
                G = b ! nat (sint (width f) * sint y * 3 + sint x * 3 + 1),
                B = b ! nat (sint (width f) * sint y * 3 + sint x * 3 + 2), A = 0xFF\<rparr>"
proof -
  note a = newFramerRGB3_accepts[OF acc]
  have lb: "int (length b) < 2 ^ 63"
    using blen by (metis of_nat_less_numeral_power_cancel_iff)
  have slen: "sint (len b) = int (length b)"
    using blen by (simp add: len_def sint_of_nat_fits)
  have w1: "1 \<le> sint w" and h1: "1 \<le> sint h" using xy by auto
  have st: "sint w \<le> stride" and ro: "sint h \<le> rows"
    using geom by (auto split: if_splits)
  have s1: "1 \<le> stride" and r1: "1 \<le> rows" using st ro w1 h1 by auto
  have "3 * stride * 1 \<le> 3 * stride * rows" using s1 r1 by (intro mult_left_mono) auto
  then have f3: "3 * stride < 2 ^ 63" using fit by simp
  have x3: "sint (x * 3) = sint x * 3"
  proof -
    have "sint x * 3 < 2 ^ 63" using f3 st xy by simp
    then show ?thesis using sint_mult_nonneg[of x 3] xy by simp
  qed
  show ?thesis
  proof (cases padded)
    case True
    with geom have g: "32 dvd stride" "sint w \<le> stride" "stride < sint w + 32"
      "16 dvd rows" "sint h \<le> rows" "rows < sint h + 16" by auto
    have sfit: "stride < 2 ^ 63" using f3 s1 by simp
    have "rows * 1 \<le> rows * (3 * stride)" using s1 r1 by (intro mult_left_mono) auto
    then have rfit: "rows < 2 ^ 63" using fit by (simp add: mult.assoc mult.left_commute mult.commute)
    obtain size' bw where v: "newFramerRGB3_vars True w h = (size', bw)"
      and bw: "sint bw = stride" and sz: "sint size' = 3 * stride * rows"
      using padded_vars[of w h stride rows] w1 h1 g sfit rfit fit by auto
    have wf: "width f = bw" and fr: "frame f = b" and lenb: "int (length b) = 3 * stride * rows"
      using a v sz slen True by auto
    note ib = index_bound[of "sint x" stride "sint y" rows]
    have x_lt: "sint x < stride" using xy st by simp
    have y_lt: "sint y < rows" using xy ro by simp
    have p0: "0 \<le> stride * sint y" using ib(1) xy x_lt y_lt by simp
    have pb: "stride * sint y * 3 + sint x * 3 + 2 < 3 * stride * rows"
      using ib(2) xy x_lt y_lt by simp
    have m1: "sint (bw * y) = stride * sint y"
      using sint_mult_nonneg[of bw y] bw s1 xy pb fit by simp
    have m2: "sint (bw * y * 3) = stride * sint y * 3"
      using sint_mult_nonneg[of "bw * y" 3] m1 p0 pb fit xy by simp
    have i: "sint (width f * y * 3 + x * 3) = stride * sint y * 3 + sint x * 3"
      using sint_add_nonneg[of "bw * y * 3" "x * 3"] m2 x3 p0 pb fit xy wf by simp
    have "0 \<le> stride * sint y * 3 + sint x * 3" using p0 xy by simp
    then show ?thesis
      using At_reads[OF i] pb lenb blen fr wf bw by simp
  next
    case False
    with geom have g: "stride = sint w" "rows = sint h" by auto
    obtain size' where v: "newFramerRGB3_vars False w h = (size', 0)"
      and sz: "sint size' = 3 * sint w * sint h"
      using non_padded_vars[of w h] w1 h1 fit g by auto
    have wf: "width f = 0" and fr: "frame f = b" and lenb: "int (length b) = 3 * sint w * sint h"
      using a v sz slen False by auto
    have "sint x * 3 + 2 < 3 * sint w * 1" using xy by simp
    also have "\<dots> \<le> 3 * sint w * sint h" using w1 h1 by (intro mult_left_mono) auto
    finally have bound: "sint x * 3 + 2 < int (length b)" using lenb by simp
    have i: "sint (width f * y * 3 + x * 3) = sint x * 3"
      using wf x3 by simp
    show ?thesis
      using At_reads[OF i] xy bound blen fr wf by simp
  qed
qed

theorem At_in_bounds_witness:
  "newFramerRGB3 True 2 1 (replicate 1536 7) None () =
     (Inr \<lparr>model = RGBAModel, bnd = Rect 0 0 2 1, width = 32, frame = replicate 1536 7,
           release = None\<rparr>, ()) \<and>
   At \<lparr>model = RGBAModel, bnd = Rect 0 0 2 1, width = 32, frame = replicate 1536 7,
       release = None :: (unit \<Rightarrow> unit) option\<rparr> 1 0 = Inr \<lparr>R = 7, G = 7, B = 7, A = 0xFF\<rparr>"
proof -
  have acc: "newFramerRGB3 True 2 1 (replicate 1536 7) None () =
     (Inr \<lparr>model = RGBAModel, bnd = Rect 0 0 2 1, width = 32, frame = replicate 1536 7,
           release = None\<rparr>, ())"
    by (simp add: newFramerRGB3_def newFramerRGB3_vars_def frameRGB3_def len_def)
  show ?thesis
    using acc At_in_bounds[OF acc, of 1 0 32 16] by simp
qed

section \<open>The capture pipeline: properties\<close>

declare recv_stream.simps [simp del] drain.simps [simp del] send_stop_full.simps [simp del]

subsection \<open>The capture process\<close>

lemma go_select_default: "go_select True r1 r2 pick \<noteq> NoneReady"
  by (simp add: go_select_def)

lemma go_select_first: "go_select d r1 r2 pick = FirstCase \<Longrightarrow> r1"
  by (simp add: go_select_def split: if_splits)

lemma capture_iter_never_parks: "fst (capture_iter parked t s) \<noteq> Parked"
proof (cases t)
  case (Tick wr gf pick)
  show ?thesis
  proof (cases wr)
    case WaitOk
    show ?thesis
    proof (cases gf)
      case (Inl e)
      with Tick WaitOk show ?thesis by simp
    next
      case (Inr p)
      obtain fr ix where p: "p = (fr, ix)" by (cases p)
      let ?s2 = "s\<lparr>drv := drv s @ [cam_WaitForFrame (Timeout s), cam_GetFrame]\<rparr>"
      show ?thesis
      proof (cases "go_select True (send_ready parked ?s2) (stop_ready ?s2) pick")
        case FirstCase
        then have "send_ready parked ?s2" by (rule go_select_first)
        then obtain st where "stream s = Some st"
          by (auto simp: send_ready_def split: option.splits)
        with Tick WaitOk Inr p FirstCase show ?thesis
          by (simp add: Let_def)
      next
        case SecondCase
        with Tick WaitOk Inr p show ?thesis
          by (simp add: Let_def split: sum.splits)
      next
        case DefaultCase
        with Tick WaitOk Inr p show ?thesis by (simp add: Let_def)
      next
        case NoneReady
        then show ?thesis by (simp add: go_select_default)
      qed
    qed
  next
    case WaitTimeout
    with Tick show ?thesis by simp
  next
    case (WaitError e)
    with Tick show ?thesis by simp
  qed
qed

lemma capture_iter_drop:
  assumes "stream s = Some st" "\<not> stream_closed st" "stop s = Some sp" "stop_count sp = 0"
    "\<not> stop_closed sp"
  shows "capture_iter False (Tick WaitOk (Inr (fr, ix)) pick) s =
           (Continue, s\<lparr>drv := drv s @ [cam_WaitForFrame (Timeout s), cam_GetFrame, cam_ReleaseFrame ix]\<rparr>)"
  using assms by (simp add: Let_def go_select_def send_ready_def stop_ready_def)

lemma capture_iter_Sent:
  "capture_iter parked t s = (Sent sn, s') \<Longrightarrow>
     \<exists>pick. t = Tick WaitOk (Inr (snap_frame sn, snap_index sn)) pick"
  by (cases t)
     (auto simp: Let_def split: wait_result.splits sum.splits prod.splits choice.splits
        option.splits if_splits)

lemma recv_stream_fetched:
  "recv_stream ticks s = (Returns (Some sn), s') \<Longrightarrow>
     \<exists>pick. Tick WaitOk (Inr (snap_frame sn, snap_index sn)) pick \<in> set ticks"
proof (induction ticks arbitrary: s)
  case Nil
  then show ?case
    by (subst (asm) recv_stream.simps) (auto split: option.splits if_splits)
next
  case (Cons t ts)
  from Cons.prems show ?case
    apply (subst (asm) recv_stream.simps)
    apply (auto split: option.splits if_splits prod.splits iter.splits dest: capture_iter_Sent Cons.IH)
    done
qed


lemma capture_continues:
  "capture_iter False t s = (Continue, s') \<Longrightarrow> capture (t # ts) s = capture ts s'"
  by simp

subsection \<open>Close and Snap\<close>

lemma drain_Returns_closed:
  "drain ticks s = (Returns (), s') \<Longrightarrow> \<exists>st. stream s' = Some st \<and> stream_closed st"
proof (induction ticks arbitrary: s)
  case Nil
  then show ?case
    by (subst (asm) drain.simps) (auto split: option.splits if_splits)
next
  case (Cons t ts)
  from Cons.prems show ?case
    apply (subst (asm) drain.simps)
    apply (auto split: option.splits if_splits prod.splits iter.splits dest: Cons.IH)
    done
qed

lemma drain_closed: "stream s = Some st \<Longrightarrow> stream_closed st \<Longrightarrow> drain ticks s = (Returns (), s)"
  by (subst drain.simps) simp

lemma recv_stream_closed:
  "stream s = Some st \<Longrightarrow> stream_closed st \<Longrightarrow> recv_stream ticks s = (Returns None, s)"
  by (subst recv_stream.simps) simp

lemma recv_stream_nil: "stream s = None \<Longrightarrow> recv_stream ticks s = (Blocks, s)"
  by (subst recv_stream.simps) simp

lemma Close_closed: "cam s = None \<Longrightarrow> Close ticks s = (Returns (), s)"
  by (simp add: Close_def)

lemma Close_Returns:
  assumes "Close ticks s = (Returns u, s')"
  shows "cam s' = None" and "cam s \<noteq> None \<Longrightarrow> \<exists>st. stream s' = Some st \<and> stream_closed st"
proof -
  show "cam s' = None"
    using assms
    by (auto simp: Close_def split: if_splits prod.splits outcome.splits)
  assume "cam s \<noteq> None"
  with assms obtain ts s1 s2 where "drain ts s1 = (Returns (), s2)"
    and "s' = s2\<lparr>drv := drv s2 @ [cam_StopStreaming, cam_Close], cam := None\<rparr>"
    by (auto simp: Close_def split: if_splits prod.splits outcome.splits)
  then show "\<exists>st. stream s' = Some st \<and> stream_closed st"
    using drain_Returns_closed[of ts s1 s2] by auto
qed

lemma Snap_closed:
  "stream s = Some st \<Longrightarrow> stream_closed st \<Longrightarrow> Snap ticks s = (Returns (Inl NoFrameReceived), s)"
  by (simp add: Snap_def recv_stream_closed)


lemma Snap_not_ok:
  "recv_stream ticks s = (Returns None, s') \<Longrightarrow> Snap ticks s = (Returns (Inl NoFrameReceived), s')"
  by (simp add: Snap_def)

subsection \<open>Open\<close>

lemma Open_body_fields:
  "Open_body e device format pf w h cm s = (ret, s2) \<Longrightarrow>
     cam s2 = Some cm \<and> stop s2 = Some \<lparr>stop_count = 0, stop_cap = 1, stop_closed = False\<rparr> \<and>
     stream s2 = Some \<lparr>stream_closed = False\<rparr>"
  by (auto simp: Open_body_def Let_def split: if_splits sum.splits prod.splits option.splits)

lemma Open_deferred_error:
  assumes "cam s = Some cm" "stop s = Some \<lparr>stop_count = 0, stop_cap = 1, stop_closed = False\<rparr>"
    "stream s = Some \<lparr>stream_closed = False\<rparr>"
  shows "Open_deferred (Some err) s =
           (Returns (Some err),
            s\<lparr>stream := Some \<lparr>stream_closed = True\<rparr>,
              stop := Some \<lparr>stop_count = 1, stop_cap = 1, stop_closed = False\<rparr>,
              drv := drv s @ [cam_StopStreaming, cam_Close], cam := None\<rparr>)"
  using assms
  by (simp add: Open_deferred_def close_stream_def Close_def send_stop_def drain_closed)

lemma Open_deferred_ok: "Open_deferred None s = (Returns None, s)"
  by (simp add: Open_deferred_def)



subsection \<open>The examples, evaluated\<close>

lemmas example_defs =
  Open_def example_env_def NewSnapper_def Open_body_def Open_deferred_def Let_def
  Match_def canFit_def to_uint32_def to_int_def defaultTimeout_def defaultBuffers_def
  close_stream_def Close_def send_stop_def drain_closed

lemma Open_example:
  "Open example_env [] ''/dev/video0'' ''RGB3'' 2 2 NewSnapper =
     (Returns None,
      \<lparr>cam = Some 3, Timeout = 5, Buffers = 16, framer = Some (newFramerRGB3 False 2 2),
       stop = Some \<lparr>stop_count = 0, stop_cap = 1, stop_closed = False\<rparr>,
       stream = Some \<lparr>stream_closed = False\<rparr>,
       drv = [webcam_Open ''/dev/video0'', cam_GetSupportedFormats,
              cam_GetSupportedFrameSizes 0x33424752, cam_SetImageFormat 0x33424752 2 2,
              cam_SetBufferCount 16, cam_SetAutoWhiteBalance True, cam_StartStreaming],
       out = [AskedGot 0x33424752 2 2 0x33424752 4 4], capturing = True\<rparr>)"
  by (simp add: example_defs)

lemma Open_example_fails:
  "Open example_env [] ''/dev/video0'' ''RGB3'' 3 3 NewSnapper =
     (Returns (Some (UnsupportedResolution ''/dev/video0'' 3 3)),
      \<lparr>cam = None, Timeout = 5, Buffers = 16, framer = None,
       stop = Some \<lparr>stop_count = 1, stop_cap = 1, stop_closed = False\<rparr>,
       stream = Some \<lparr>stream_closed = True\<rparr>,
       drv = [webcam_Open ''/dev/video0'', cam_GetSupportedFormats,
              cam_GetSupportedFrameSizes 0x33424752, cam_StopStreaming, cam_Close],
       out = [], capturing = False\<rparr>)"
  by (simp add: example_defs)

lemma example_open_eq:
  "example_open =
     \<lparr>cam = Some 3, Timeout = 5, Buffers = 16, framer = Some (newFramerRGB3 False 2 2),
      stop = Some \<lparr>stop_count = 0, stop_cap = 1, stop_closed = False\<rparr>,
      stream = Some \<lparr>stream_closed = False\<rparr>,
      drv = [webcam_Open ''/dev/video0'', cam_GetSupportedFormats,
             cam_GetSupportedFrameSizes 0x33424752, cam_SetImageFormat 0x33424752 2 2,
             cam_SetBufferCount 16, cam_SetAutoWhiteBalance True, cam_StartStreaming],
      out = [AskedGot 0x33424752 2 2 0x33424752 4 4], capturing = True\<rparr>"
  by (simp add: example_open_def Open_example)

lemma example_drop:
  "capture_iter False (Tick WaitOk (Inr ([9, 9, 9], 7)) True) example_open =
     (Continue, example_open\<lparr>drv := drv example_open @ [cam_WaitForFrame 5, cam_GetFrame, cam_ReleaseFrame 7]\<rparr>)"
  by (simp add: example_open_eq Let_def go_select_def send_ready_def stop_ready_def)

lemma example_recv:
  "recv_stream [Tick WaitTimeout (Inl NoFrameReceived) False, Tick WaitOk (Inr ([1, 2, 3], 8)) True]
     example_open =
   (Returns (Some \<lparr>snap_frame = [1, 2, 3], snap_index = 8\<rparr>),
    example_open\<lparr>drv := drv example_open @ [cam_WaitForFrame 5, cam_WaitForFrame 5, cam_GetFrame]\<rparr>)"
  by (simp add: example_open_eq recv_stream.simps Let_def go_select_def send_ready_def stop_ready_def)


lemma example_close:
  "Close [Tick WaitOk (Inr ([1, 2, 3], 8)) False] example_open =
     (Returns (),
      example_open\<lparr>stream := Some \<lparr>stream_closed = True\<rparr>, capturing := False, cam := None,
        drv := drv example_open @ [cam_WaitForFrame 5, cam_GetFrame, cam_ReleaseFrame 8,
                                   cam_StopStreaming, cam_Close]\<rparr>)"
  by (simp add: example_open_eq Close_def send_stop_def drain.simps Let_def go_select_def
      send_ready_def stop_ready_def recv_stop_def close_stream_def)

lemma example_snap_mismatch:
  "Snap [Tick WaitOk (Inr (replicate 48 0, 8)) True] example_open =
     (Returns (Inl (WrongFrameLength 12 48)),
      example_open\<lparr>drv := drv example_open @ [cam_WaitForFrame 5, cam_GetFrame, cam_ReleaseFrame 8]\<rparr>)"
  by (simp add: example_open_eq Snap_def recv_stream.simps Let_def go_select_def
      send_ready_def stop_ready_def newFramerRGB3_def newFramerRGB3_vars_def frameRGB3_def len_def)

subsection \<open>The states a program reaches\<close>

lemma pipeline_inv_drv [simp]: "pipeline_inv (s\<lparr>drv := d\<rparr>) = pipeline_inv s"
  by (simp add: pipeline_inv_def)

lemma capture_iter_no_stop:
  assumes "\<not> stop_ready s" "capture_iter parked t s = (r, s')"
  shows "r \<noteq> Stopped \<and> (\<exists>d. s' = s\<lparr>drv := d\<rparr>)"
proof (cases t)
  case (Tick wr gf pick)
  have sr: "\<And>d. stop_ready (s\<lparr>drv := d\<rparr>) = stop_ready s"
    by (simp add: stop_ready_def)
  show ?thesis
    using assms Tick
    by (auto simp: Let_def sr go_select_def split: wait_result.splits sum.splits prod.splits
        option.splits if_splits)
qed

lemma recv_stream_inv:
  "\<not> stop_ready s \<Longrightarrow> recv_stream ticks s = (Returns x, s') \<Longrightarrow> \<exists>d. s' = s\<lparr>drv := d\<rparr>"
proof (induction ticks arbitrary: s)
  case Nil
  from Nil(2) have "s' = s"
    by (subst (asm) recv_stream.simps) (auto split: option.splits if_splits)
  then show ?case by (auto intro: exI[of _ "drv s"])
next
  case (Cons t ts)
  show ?case
  proof (cases "\<exists>st. stream s = Some st \<and> \<not> stream_closed st \<and> capturing s")
    case False
    with Cons.prems(2) have "s' = s"
      by (subst (asm) recv_stream.simps) (auto split: option.splits if_splits)
    then show ?thesis by (auto intro: exI[of _ "drv s"])
  next
    case True
    obtain r s1 where ci: "capture_iter True t s = (r, s1)"
      by (cases "capture_iter True t s")
    from capture_iter_no_stop[OF Cons.prems(1) ci] obtain d where
      r: "r \<noteq> Stopped" and s1: "s1 = s\<lparr>drv := d\<rparr>" by auto
    have sr: "\<not> stop_ready s1" using Cons.prems(1) s1 by (simp add: stop_ready_def)
    show ?thesis
    proof (cases r)
      case Continue
      with True ci Cons.prems(2) have "recv_stream ts s1 = (Returns x, s')"
        by (subst (asm) recv_stream.simps) auto
      from Cons.IH[OF sr this] s1 show ?thesis by auto
    next
      case (Sent sn)
      with True ci Cons.prems(2) have "s' = s1"
        by (subst (asm) recv_stream.simps) auto
      with s1 show ?thesis by auto
    next
      case Stopped
      with r show ?thesis by simp
    next
      case (Panicked p)
      with True ci Cons.prems(2) show ?thesis
        by (subst (asm) recv_stream.simps) auto
    next
      case Parked
      with True ci Cons.prems(2) show ?thesis
        by (subst (asm) recv_stream.simps) auto
    qed
  qed
qed

lemma Snap_inv:
  assumes "pipeline_inv s" "Snap ticks s = (Returns r, s')"
  shows "pipeline_inv s'"
proof -
  obtain x s1 where rs: "recv_stream ticks s = (Returns x, s1)"
    using assms(2)
    by (auto simp: Snap_def split: prod.splits outcome.splits option.splits)
  have "\<exists>d. s1 = s\<lparr>drv := d\<rparr>"
  proof (cases "cam s = None")
    case True
    with assms(1) have "stream s = None \<or> stream s = Some \<lparr>stream_closed = True\<rparr>"
      by (simp add: pipeline_inv_def)
    with rs have "s1 = s"
      by (auto simp: recv_stream_nil recv_stream_closed)
    then show ?thesis by (auto intro: exI[of _ "drv s"])
  next
    case False
    with assms(1) have "\<not> stop_ready s"
      by (simp add: pipeline_inv_def stop_ready_def)
    from recv_stream_inv[OF this rs] show ?thesis .
  qed
  then obtain d where s1: "s1 = s\<lparr>drv := d\<rparr>" by auto
  from assms(2) rs have "\<exists>d'. s' = s1\<lparr>drv := d'\<rparr>"
    by (auto simp: Snap_def split: option.splits prod.splits intro: exI[of _ "drv s1"])
  with s1 assms(1) show ?thesis by auto
qed

lemma capture_iter_stopping:
  assumes "stream s = Some \<lparr>stream_closed = False\<rparr>"
    "stop s = Some \<lparr>stop_count = 1, stop_cap = 1, stop_closed = False\<rparr>"
    "capture_iter True t s = (r, s1)"
  shows "((r = Continue \<or> (\<exists>sn. r = Sent sn)) \<and> (\<exists>d. s1 = s\<lparr>drv := d\<rparr>)) \<or>
         (r = Stopped \<and> stream s1 = Some \<lparr>stream_closed = True\<rparr> \<and> \<not> capturing s1 \<and>
          cam s1 = cam s) \<or>
         (\<exists>p. r = Panicked p)"
proof (cases t)
  case (Tick wr gf pick)
  show ?thesis
    using assms Tick
    by (auto simp: Let_def go_select_def send_ready_def stop_ready_def recv_stop_def
        close_stream_def
        split: wait_result.splits sum.splits prod.splits if_splits)
qed

lemma drain_inv:
  assumes "(stream s = Some \<lparr>stream_closed = False\<rparr> \<and> capturing s \<and>
            stop s = Some \<lparr>stop_count = 1, stop_cap = 1, stop_closed = False\<rparr>) \<or>
           (stream s = Some \<lparr>stream_closed = True\<rparr> \<and> \<not> capturing s)"
    and "drain ticks s = (Returns (), s')"
  shows "stream s' = Some \<lparr>stream_closed = True\<rparr> \<and> \<not> capturing s' \<and> cam s' = cam s"
  using assms
proof (induction ticks arbitrary: s)
  case Nil
  from Nil(2) have "s' = s \<and> stream s = Some \<lparr>stream_closed = True\<rparr>"
    by (subst (asm) drain.simps) (auto split: option.splits if_splits)
  with Nil(1) show ?case by auto
next
  case (Cons t ts)
  show ?case
  proof (cases "stream s = Some \<lparr>stream_closed = True\<rparr>")
    case True
    with Cons.prems(2) have "s' = s"
      by (subst (asm) drain.simps) auto
    with True Cons.prems(1) show ?thesis by auto
  next
    case False
    with Cons.prems(1) have op: "stream s = Some \<lparr>stream_closed = False\<rparr>" "capturing s"
      "stop s = Some \<lparr>stop_count = 1, stop_cap = 1, stop_closed = False\<rparr>" by auto
    obtain r s1 where ci: "capture_iter True t s = (r, s1)"
      by (cases "capture_iter True t s")
    note cs = capture_iter_stopping[OF op(1) op(3) ci]
    show ?thesis
    proof (cases r)
      case Continue
      with cs obtain d where s1: "s1 = s\<lparr>drv := d\<rparr>" by auto
      from op ci Continue Cons.prems(2) have d: "drain ts s1 = (Returns (), s')"
        by (subst (asm) drain.simps) auto
      from Cons.IH[OF _ d] s1 op show ?thesis by auto
    next
      case (Sent sn)
      with cs obtain d where s1: "s1 = s\<lparr>drv := d\<rparr>" by auto
      from op ci Sent Cons.prems(2)
      have d: "drain ts (s1\<lparr>drv := drv s1 @ [cam_ReleaseFrame (snap_index sn)]\<rparr>) = (Returns (), s')"
        by (subst (asm) drain.simps) auto
      from Cons.IH[OF _ d] s1 op show ?thesis by auto
    next
      case Stopped
      with cs have s1: "stream s1 = Some \<lparr>stream_closed = True\<rparr>" "\<not> capturing s1" "cam s1 = cam s"
        by auto
      from op ci Stopped Cons.prems(2) have d: "drain ts s1 = (Returns (), s')"
        by (subst (asm) drain.simps) auto
      from Cons.IH[OF _ d] s1 show ?thesis by auto
    next
      case (Panicked p)
      with op ci Cons.prems(2) show ?thesis
        by (subst (asm) drain.simps) auto
    next
      case Parked
      with op ci Cons.prems(2) show ?thesis
        by (subst (asm) drain.simps) auto
    qed
  qed
qed

lemma Close_inv:
  assumes "pipeline_inv s" "Close ticks s = (Returns u, s')"
  shows "pipeline_inv s' \<and> cam s' = None"
proof (cases "cam s = None")
  case True
  with assms show ?thesis by (simp add: Close_def)
next
  case False
  with assms(1) have op: "capturing s" "stream s = Some \<lparr>stream_closed = False\<rparr>"
    "stop s = Some \<lparr>stop_count = 0, stop_cap = 1, stop_closed = False\<rparr>"
    by (auto simp: pipeline_inv_def)
  let ?s1 = "s\<lparr>stop := Some \<lparr>stop_count = 1, stop_cap = 1, stop_closed = False\<rparr>\<rparr>"
  have ss: "send_stop ticks s = (Returns ticks, ?s1)"
    using op by (simp add: send_stop_def)
  with assms(2) False obtain s2 where d: "drain ticks ?s1 = (Returns (), s2)"
    and s': "s' = s2\<lparr>drv := drv s2 @ [cam_StopStreaming, cam_Close], cam := None\<rparr>"
    by (auto simp: Close_def split: prod.splits outcome.splits)
  from drain_inv[OF _ d] op have "stream s2 = Some \<lparr>stream_closed = True\<rparr> \<and> \<not> capturing s2"
    by simp
  with s' show ?thesis by (simp add: pipeline_inv_def)
qed

lemma Open_body_capturing:
  "Open_body e device format pf w h cm s = (ret, s2) \<Longrightarrow>
     (case ret of None \<Rightarrow> capturing s2 | Some err \<Rightarrow> capturing s2 = capturing s)"
  by (auto simp: Open_body_def Let_def split: if_splits sum.splits prod.splits option.splits)

lemma Open_inv:
  assumes "pipeline_inv s" "Open e ticks device format w h s = (Returns ret, s')"
  shows "pipeline_inv s'"
proof (cases "FourCCToPixelFormat e format")
  case (Inl err)
  with assms show ?thesis by (simp add: Open_def)
next
  case (Inr pf)
  with assms(2) obtain s0 where
    pre: "(if cam s \<noteq> None then Close ticks s else (Returns (), s)) = (Returns (), s0)"
    by (auto simp: Open_def split: prod.splits outcome.splits)
  have i0: "pipeline_inv s0" and c0: "cam s0 = None"
    using pre assms(1) Close_inv[of s ticks "()" s0] by (auto split: if_splits)
  then have nc: "\<not> capturing s0" by (simp add: pipeline_inv_def)
  let ?s1 = "s0\<lparr>drv := drv s0 @ [webcam_Open device]\<rparr>"
  show ?thesis
  proof (cases "r_Open e device")
    case (Inl err)
    with assms(2) Inr pre have "s' = ?s1" by (simp add: Open_def)
    with i0 show ?thesis by simp
  next
    case cm: (Inr cm)
    obtain r s2 where body: "Open_body e device format pf w h cm ?s1 = (r, s2)"
      by (cases "Open_body e device format pf w h cm ?s1")
    with assms(2) Inr pre cm have d: "Open_deferred r s2 = (Returns ret, s')"
      by (simp add: Open_def)
    note fld = Open_body_fields[OF body]
    note cap = Open_body_capturing[OF body]
    show ?thesis
    proof (cases r)
      case None
      with d have "s' = s2" by (simp add: Open_deferred_ok)
      with fld cap None show ?thesis by (simp add: pipeline_inv_def)
    next
      case (Some err)
      with d Open_deferred_error[of s2 cm err] fld
      have "s' = s2\<lparr>stream := Some \<lparr>stream_closed = True\<rparr>,
              stop := Some \<lparr>stop_count = 1, stop_cap = 1, stop_closed = False\<rparr>,
              drv := drv s2 @ [cam_StopStreaming, cam_Close], cam := None\<rparr>"
        by simp
      with cap Some nc show ?thesis by (simp add: pipeline_inv_def)
    qed
  qed
qed

lemma capture_iter_Continue:
  "capture_iter parked t s = (Continue, s') \<Longrightarrow> \<exists>d. s' = s\<lparr>drv := d\<rparr>"
  by (cases t)
     (auto simp: Let_def split: wait_result.splits sum.splits prod.splits choice.splits
        option.splits if_splits)

lemma reachable_inv: "reachable s \<Longrightarrow> pipeline_inv s"
proof (induction rule: reachable.induct)
  case reach_new
  show ?case by (simp add: pipeline_inv_def NewSnapper_def)
next
  case (reach_fields s t b)
  then show ?case by (simp add: pipeline_inv_def)
next
  case (reach_driver s cs)
  then show ?case by simp
next
  case (reach_capture s t s')
  from capture_iter_Continue[OF reach_capture(3)] reach_capture(4) show ?case by auto
next
  case (reach_Open s e ticks device format w h ret s')
  then show ?case using Open_inv by blast
next
  case (reach_Snap s ticks r s')
  then show ?case using Snap_inv by blast
next
  case (reach_Close s ticks u s')
  then show ?case using Close_inv by blast
qed


text \<open>
  So in a reachable state the capture process runs with \<^verbatim>\<open>c.cam\<close> set, outside
  \<^verbatim>\<open>Close\<close> no stop request is pending, and the send of \<^verbatim>\<open>Close\<close> finds the
  buffer of \<^verbatim>\<open>c.stop\<close> empty.
\<close>

lemma reachable_capturing:
  assumes "reachable s" "capturing s"
  shows "cam s \<noteq> None" and "stream s = Some \<lparr>stream_closed = False\<rparr>"
    and "stop s = Some \<lparr>stop_count = 0, stop_cap = 1, stop_closed = False\<rparr>"
  using reachable_inv[OF assms(1)] assms(2) by (auto simp: pipeline_inv_def split: if_splits)

lemma reachable_drop:
  assumes "reachable s" "capturing s"
  shows "capture_iter False (Tick WaitOk (Inr (fr, ix)) pick) s =
           (Continue, s\<lparr>drv := drv s @ [cam_WaitForFrame (Timeout s), cam_GetFrame, cam_ReleaseFrame ix]\<rparr>)"
  using reachable_capturing[OF assms] by (intro capture_iter_drop) auto

lemma reachable_send_stop:
  assumes "reachable s" "cam s \<noteq> None"
  shows "send_stop ticks s =
           (Returns ticks, s\<lparr>stop := Some \<lparr>stop_count = 1, stop_cap = 1, stop_closed = False\<rparr>\<rparr>)"
  using reachable_inv[OF assms(1)] assms(2) by (simp add: pipeline_inv_def send_stop_def)

text \<open>
  The receive of \<^verbatim>\<open>Snap\<close> on an open pipeline returns the buffer of the first
  iteration that fetches one, and \<^verbatim>\<open>Close\<close> on an open pipeline returns once an
  iteration fetches a buffer and its \<^verbatim>\<open>select\<close> takes the stop request.
\<close>

lemma reachable_Snap_delivers:
  assumes "reachable s" "capturing s"
  shows "recv_stream (Tick WaitOk (Inr (fr, ix)) pick # ts) s =
           (Returns (Some \<lparr>snap_frame = fr, snap_index = ix\<rparr>),
            s\<lparr>drv := drv s @ [cam_WaitForFrame (Timeout s), cam_GetFrame]\<rparr>)"
  using reachable_capturing[OF assms] assms(2)
  by (simp add: recv_stream.simps Let_def go_select_def send_ready_def stop_ready_def)

lemma reachable_Close_returns:
  assumes "reachable s" "cam s \<noteq> None"
  shows "Close (Tick WaitOk (Inr (fr, ix)) False # ts) s =
           (Returns (),
            s\<lparr>stream := Some \<lparr>stream_closed = True\<rparr>, capturing := False, cam := None,
              drv := drv s @ [cam_WaitForFrame (Timeout s), cam_GetFrame, cam_ReleaseFrame ix,
                              cam_StopStreaming, cam_Close]\<rparr>)"
proof -
  have c: "capturing s" using reachable_inv[OF assms(1)] assms(2) by (simp add: pipeline_inv_def)
  show ?thesis
    using reachable_capturing[OF assms(1) c] c assms(2)
    by (simp add: Close_def send_stop_def drain.simps Let_def go_select_def
        send_ready_def stop_ready_def recv_stop_def close_stream_def)
qed


subsection \<open>Drop when nobody is ready\<close>

text \<open>
  C6. In an iteration of the capture process that has fetched a buffer while no goroutine
  is parked on \<^verbatim>\<open>c.stream\<close> and \<^verbatim>\<open>c.stop\<close> holds no request, the iteration
  releases the buffer and continues, the loop goes on with the next tick, and the state
  keeps nothing of the buffer but the driver calls in the log. A snap that a receive on
  \<^verbatim>\<open>c.stream\<close> returns, as the receive of \<^verbatim>\<open>Snap\<close> does, was fetched by an iteration
  made while that receive was parked, so a buffer dropped before is not delivered. No
  iteration parks: the \<^verbatim>\<open>select\<close> has a \<^verbatim>\<open>default\<close>.
\<close>

theorem capture_drops_unready:
  "(stream s = Some st \<and> \<not> stream_closed st \<and> stop s = Some sp \<and> stop_count sp = 0 \<and>
    \<not> stop_closed sp \<longrightarrow>
      capture_iter False (Tick WaitOk (Inr (fr, ix)) pick) s =
        (Continue,
         s\<lparr>drv := drv s @ [cam_WaitForFrame (Timeout s), cam_GetFrame, cam_ReleaseFrame ix]\<rparr>) \<and>
      capture (Tick WaitOk (Inr (fr, ix)) pick # ts) s =
        capture ts
          (s\<lparr>drv := drv s @ [cam_WaitForFrame (Timeout s), cam_GetFrame, cam_ReleaseFrame ix]\<rparr>)) \<and>
   (recv_stream ticks s0 = (Returns (Some sn), s1) \<longrightarrow>
      (\<exists>pick'. Tick WaitOk (Inr (snap_frame sn, snap_index sn)) pick' \<in> set ticks)) \<and>
   fst (capture_iter parked t s2) \<noteq> Parked"
proof -
  have a: "stream s = Some st \<and> \<not> stream_closed st \<and> stop s = Some sp \<and> stop_count sp = 0 \<and>
    \<not> stop_closed sp \<longrightarrow>
      capture_iter False (Tick WaitOk (Inr (fr, ix)) pick) s =
        (Continue,
         s\<lparr>drv := drv s @ [cam_WaitForFrame (Timeout s), cam_GetFrame, cam_ReleaseFrame ix]\<rparr>)"
    using capture_iter_drop[of s st sp fr ix pick] by blast
  have b: "recv_stream ticks s0 = (Returns (Some sn), s1) \<longrightarrow>
      (\<exists>pick'. Tick WaitOk (Inr (snap_frame sn, snap_index sn)) pick' \<in> set ticks)"
    using recv_stream_fetched[of ticks s0 sn s1] by blast
  show ?thesis
    using a b capture_iter_never_parks[of parked t s2]
      capture_continues[of "Tick WaitOk (Inr (fr, ix)) pick" s _ ts]
    by blast
qed

theorem capture_drops_unready_witness:
  "capture_iter False (Tick WaitOk (Inr ([9, 9, 9], 7)) True) example_open =
     (Continue,
      example_open\<lparr>drv := drv example_open @ [cam_WaitForFrame 5, cam_GetFrame, cam_ReleaseFrame 7]\<rparr>) \<and>
   recv_stream [Tick WaitTimeout (Inl NoFrameReceived) False, Tick WaitOk (Inr ([1, 2, 3], 8)) True]
     example_open =
   (Returns (Some \<lparr>snap_frame = [1, 2, 3], snap_index = 8\<rparr>),
    example_open\<lparr>drv := drv example_open @ [cam_WaitForFrame 5, cam_WaitForFrame 5, cam_GetFrame]\<rparr>) \<and>
   (\<exists>pick'. Tick WaitOk (Inr ([1, 2, 3], 8)) pick' \<in>
      set [Tick WaitTimeout (Inl NoFrameReceived) False, Tick WaitOk (Inr ([1, 2, 3], 8)) True])"
  using capture_drops_unready[of example_open "\<lparr>stream_closed = False\<rparr>"
      "\<lparr>stop_count = 0, stop_cap = 1, stop_closed = False\<rparr>" "[9, 9, 9]" 7 True "[]"
      "[Tick WaitTimeout (Inl NoFrameReceived) False, Tick WaitOk (Inr ([1, 2, 3], 8)) True]"
      example_open "\<lparr>snap_frame = [1, 2, 3], snap_index = 8\<rparr>"
      "example_open\<lparr>drv := drv example_open @ [cam_WaitForFrame 5, cam_WaitForFrame 5, cam_GetFrame]\<rparr>"
      False "Tick WaitTimeout (Inl NoFrameReceived) False" example_open]
    example_recv
  by (simp add: example_open_eq)

subsection \<open>Rollback of a failed Open\<close>

text \<open>
  C7, as stated, fails for the stop channel: \<^verbatim>\<open>Open\<close> of a new Snapper on the example
  device, asking for 3 by 3, fails with the unsupported-resolution error; the device
  handle is dropped and the stream channel is closed, but the stop channel is not closed:
  it holds the request that \<^verbatim>\<open>Close\<close> sent.
\<close>

theorem Open_failure_leaves_stop_open:
  "Open example_env [] ''/dev/video0'' ''RGB3'' 3 3 NewSnapper =
     (Returns (Some (UnsupportedResolution ''/dev/video0'' 3 3)),
      \<lparr>cam = None, Timeout = 5, Buffers = 16, framer = None,
       stop = Some \<lparr>stop_count = 1, stop_cap = 1, stop_closed = False\<rparr>,
       stream = Some \<lparr>stream_closed = True\<rparr>,
       drv = [webcam_Open ''/dev/video0'', cam_GetSupportedFormats,
              cam_GetSupportedFrameSizes 0x33424752, cam_StopStreaming, cam_Close],
       out = [], capturing = False\<rparr>)"
  by (rule Open_example_fails)


text \<open>
  C7, amended. When \<^verbatim>\<open>Open\<close> returns an error after the format code was resolved,
  the pipeline holds no device handle; and when the device had been opened, the stream
  channel is closed, the stop channel is open and holds the one request of the rollback's
  \<^verbatim>\<open>Close\<close>, and the driver's log ends with the \<^verbatim>\<open>StopStreaming\<close> and
  \<^verbatim>\<open>Close\<close> of the rollback.
\<close>

theorem Open_failure_rolls_back:
  assumes fc: "FourCCToPixelFormat e format = Inr pf"
    and op: "Open e ticks device format w h s = (Returns (Some err), s')"
  shows "cam s' = None \<and>
         (\<forall>cm. r_Open e device = Inr cm \<longrightarrow>
            stream s' = Some \<lparr>stream_closed = True\<rparr> \<and>
            stop s' = Some \<lparr>stop_count = 1, stop_cap = 1, stop_closed = False\<rparr> \<and>
            (\<exists>pre. drv s' = pre @ [cam_StopStreaming, cam_Close]))"
proof -
  obtain s0 where pre: "(if cam s \<noteq> None then Close ticks s else (Returns (), s)) = (Returns (), s0)"
    using op fc by (auto simp: Open_def split: prod.splits outcome.splits)
  have c0: "cam s0 = None"
    using pre Close_Returns(1)[of ticks s "()" s0] by (auto split: if_splits)
  let ?s1 = "s0\<lparr>drv := drv s0 @ [webcam_Open device]\<rparr>"
  show ?thesis
  proof (cases "r_Open e device")
    case (Inl e')
    with op fc pre have "s' = ?s1" by (simp add: Open_def)
    with c0 Inl show ?thesis by simp
  next
    case (Inr cm)
    obtain ret s2 where body: "Open_body e device format pf w h cm ?s1 = (ret, s2)"
      by (cases "Open_body e device format pf w h cm ?s1")
    with op fc pre Inr have d: "Open_deferred ret s2 = (Returns (Some err), s')"
      by (simp add: Open_def)
    have "ret = Some err"
    proof (cases ret)
      case None
      with d show ?thesis by (simp add: Open_deferred_ok)
    next
      case (Some x)
      with d Open_deferred_error[of s2 cm x] Open_body_fields[OF body] show ?thesis by simp
    qed
    with d Open_deferred_error[of s2 cm err] Open_body_fields[OF body]
    have "s' = s2\<lparr>stream := Some \<lparr>stream_closed = True\<rparr>,
              stop := Some \<lparr>stop_count = 1, stop_cap = 1, stop_closed = False\<rparr>,
              drv := drv s2 @ [cam_StopStreaming, cam_Close], cam := None\<rparr>"
      by simp
    then show ?thesis using Inr by simp
  qed
qed

theorem Open_failure_rolls_back_witness:
  "cam (snd (Open example_env [] ''/dev/video0'' ''RGB3'' 3 3 NewSnapper)) = None \<and>
   stream (snd (Open example_env [] ''/dev/video0'' ''RGB3'' 3 3 NewSnapper)) =
     Some \<lparr>stream_closed = True\<rparr> \<and>
   (\<exists>pre. drv (snd (Open example_env [] ''/dev/video0'' ''RGB3'' 3 3 NewSnapper)) =
      pre @ [cam_StopStreaming, cam_Close])"
proof -
  have fc: "FourCCToPixelFormat example_env ''RGB3'' = Inr 0x33424752"
    by (simp add: example_env_def)
  have ro: "r_Open example_env ''/dev/video0'' = Inr 3"
    by (simp add: example_env_def)
  show ?thesis
    using Open_failure_rolls_back[OF fc Open_example_fails] ro
    by (simp add: Open_example_fails)
qed


subsection \<open>The framer that Open resolves\<close>






subsection \<open>Close on a closed pipeline\<close>

text \<open>
  C8. \<^verbatim>\<open>Close\<close> on a closed pipeline returns with the state unchanged, the driver's
  log included; and after any \<^verbatim>\<open>Close\<close> that returns, a second \<^verbatim>\<open>Close\<close> returns
  with the state the first one left.
\<close>

theorem Close_idempotent:
  "(cam s = None \<longrightarrow> Close ticks s = (Returns (), s) \<and> drv (snd (Close ticks s)) = drv s) \<and>
   (Close t1 s = (Returns u, s1) \<longrightarrow> Close t2 s1 = (Returns (), s1))"
  using Close_Returns(1)[of t1 s u s1] by (simp add: Close_closed)

theorem Close_idempotent_witness:
  "Close [] (NewSnapper :: unit sys) = (Returns (), NewSnapper) \<and>
   (\<exists>s1. Close [Tick WaitOk (Inr ([1, 2, 3], 8)) False] example_open = (Returns (), s1) \<and>
         cam s1 = None \<and>
         Close [Tick WaitOk (Inr ([1, 2, 3], 8)) False] s1 = (Returns (), s1))"
  using Close_idempotent[of "NewSnapper :: unit sys" "[]" "[]" "()" NewSnapper "[]"]
    Close_idempotent[of example_open "[]" "[Tick WaitOk (Inr ([1, 2, 3], 8)) False]" "()" _
      "[Tick WaitOk (Inr ([1, 2, 3], 8)) False]"]
    example_close
  by (simp add: NewSnapper_def)

subsection \<open>Snap on a closed channel\<close>

text \<open>
  C9, as stated, fails for a Snapper that was never opened: \<^verbatim>\<open>Close\<close> returns at
  once, \<^verbatim>\<open>c.stream\<close> is still the nil channel, and \<^verbatim>\<open>Snap\<close> blocks forever on it.
\<close>

theorem Snap_blocks_after_Close_of_new_Snapper:
  "Close [] (NewSnapper :: unit sys) = (Returns (), NewSnapper) \<and>
   Snap [Tick WaitOk (Inr ([1, 2, 3], 0)) True] (NewSnapper :: unit sys) = (Blocks, NewSnapper)"
  by (simp add: Close_def Snap_def NewSnapper_def recv_stream_nil)

text \<open>
  C9, amended. A receive on a closed \<^verbatim>\<open>c.stream\<close> returns at once with
  \<open>ok = false\<close>, and whenever the receive of \<^verbatim>\<open>Snap\<close> does so \<^verbatim>\<open>Snap\<close> returns the
  error "No frame received"; so does every \<^verbatim>\<open>Snap\<close> after a \<^verbatim>\<open>Close\<close> that
  returned on an open pipeline. When the receive returns a snap, \<^verbatim>\<open>Snap\<close> returns what
  the pipeline's framer returns on the snap's buffer and a callback that calls
  \<^verbatim>\<open>ReleaseFrame\<close> with the snap's index.
\<close>

theorem Snap_on_closed_stream:
  "(stream s = Some st \<and> stream_closed st \<longrightarrow> recv_stream ticks s = (Returns None, s)) \<and>
   (recv_stream ticks s = (Returns None, s') \<longrightarrow>
      Snap ticks s = (Returns (Inl NoFrameReceived), s')) \<and>
   (cam s \<noteq> None \<and> Close t1 s = (Returns u, s1) \<longrightarrow>
      Snap ticks s1 = (Returns (Inl NoFrameReceived), s1)) \<and>
   (recv_stream ticks s = (Returns (Some sn), s2) \<and> framer s2 = Some fn \<longrightarrow>
      Snap ticks s =
        (case fn (snap_frame sn) (Some (\<lambda>d. d @ [cam_ReleaseFrame (snap_index sn)])) (drv s2) of
           (r, d) \<Rightarrow> (Returns r, s2\<lparr>drv := d\<rparr>)))"
proof -
  have a: "stream s = Some st \<and> stream_closed st \<longrightarrow> recv_stream ticks s = (Returns None, s)"
    by (simp add: recv_stream_closed)
  have a': "recv_stream ticks s = (Returns None, s') \<longrightarrow>
      Snap ticks s = (Returns (Inl NoFrameReceived), s')"
    by (simp add: Snap_not_ok)
  have b: "cam s \<noteq> None \<and> Close t1 s = (Returns u, s1) \<longrightarrow>
      Snap ticks s1 = (Returns (Inl NoFrameReceived), s1)"
    using Close_Returns(2)[of t1 s u s1] by (auto simp: Snap_closed)
  have c: "recv_stream ticks s = (Returns (Some sn), s2) \<and> framer s2 = Some fn \<longrightarrow>
      Snap ticks s =
        (case fn (snap_frame sn) (Some (\<lambda>d. d @ [cam_ReleaseFrame (snap_index sn)])) (drv s2) of
           (r, d) \<Rightarrow> (Returns r, s2\<lparr>drv := d\<rparr>))"
    by (simp add: Snap_def)
  show ?thesis using a a' b c by blast
qed

theorem Snap_on_closed_stream_witness:
  "(\<exists>s1. Close [Tick WaitOk (Inr ([1, 2, 3], 8)) False] example_open = (Returns (), s1) \<and>
         Snap [Tick WaitOk (Inr ([1, 2, 3], 9)) True] s1 = (Returns (Inl NoFrameReceived), s1)) \<and>
   Snap [Tick WaitOk (Inr (replicate 48 0, 8)) True] example_open =
     (Returns (Inl (WrongFrameLength 12 48)),
      example_open\<lparr>drv := drv example_open @ [cam_WaitForFrame 5, cam_GetFrame, cam_ReleaseFrame 8]\<rparr>)"
  using Snap_on_closed_stream[of example_open _ "[Tick WaitOk (Inr ([1, 2, 3], 9)) True]" _
      "[Tick WaitOk (Inr ([1, 2, 3], 8)) False]" "()"]
    example_close example_snap_mismatch
  by (simp add: example_open_eq)

end
